theory Spec2Isabelle
  imports Complex_Main "HOL-Library.AList"
begin

section \<open>Values\<close>

text \<open>
  A number: a cell of a numpy vector or a Python number.  It is a \<open>float64\<close> value (\<open>NaN\<close>,
  the two infinities, or a finite value) or an \<open>int64\<close> value (\<open>I64\<close>).  Finite floats are
  modelled as exact reals (rounding, overflow and the sign of zero are not modelled);
  \<open>int64\<close> arithmetic wraps around, as numpy's does.
\<close>

datatype flt = NaN | PInf | NInf | Fin real | I64 int

fun is_int :: "flt \<Rightarrow> bool" where
  "is_int (I64 i) = True"
| "is_int _ = False"

text \<open>The \<open>int64\<close> value an integer result wraps to.\<close>

definition wrap64 :: "int \<Rightarrow> int" where
  "wrap64 i = (i + 2 ^ 63) mod 2 ^ 64 - 2 ^ 63"

text \<open>Conversion of a number to \<open>float64\<close>.\<close>

fun to_float :: "flt \<Rightarrow> flt" where
  "to_float (I64 i) = Fin (of_int i)"
| "to_float x = x"

text \<open>\<open>np.asarray\<close> of a sequence of numbers: an \<open>int64\<close> array when all of them are integers,
  a \<open>float64\<close> array otherwise.\<close>

definition np_asarray :: "flt list \<Rightarrow> flt list" where
  "np_asarray xs = (if list_all is_int xs then xs else map to_float xs)"

lemma np_asarray_length [simp]: "length (np_asarray xs) = length xs"
  by (simp add: np_asarray_def)

fun isnan :: "flt \<Rightarrow> bool" where
  "isnan NaN = True"
| "isnan _ = False"

text \<open>The operations of \<open>float64\<close>; their arguments are floats (the last equation of each
  is never reached).\<close>

fun f64_neg :: "flt \<Rightarrow> flt" where
  "f64_neg (Fin a) = Fin (- a)"
| "f64_neg PInf = NInf"
| "f64_neg NInf = PInf"
| "f64_neg _ = NaN"

fun f64_add :: "flt \<Rightarrow> flt \<Rightarrow> flt" where
  "f64_add (Fin a) (Fin b) = Fin (a + b)"
| "f64_add NaN _ = NaN"
| "f64_add _ NaN = NaN"
| "f64_add PInf NInf = NaN"
| "f64_add NInf PInf = NaN"
| "f64_add PInf _ = PInf"
| "f64_add _ PInf = PInf"
| "f64_add NInf _ = NInf"
| "f64_add _ NInf = NInf"
| "f64_add _ _ = NaN"

fun fsgn :: "flt \<Rightarrow> int" where
  "fsgn PInf = 1"
| "fsgn NInf = - 1"
| "fsgn (Fin a) = (if a = 0 then 0 else if 0 < a then 1 else - 1)"
| "fsgn _ = 0"

definition signed_inf :: "int \<Rightarrow> flt" where
  "signed_inf s = (if s = 0 then NaN else if 0 < s then PInf else NInf)"

fun f64_mul :: "flt \<Rightarrow> flt \<Rightarrow> flt" where
  "f64_mul (Fin a) (Fin b) = Fin (a * b)"
| "f64_mul NaN _ = NaN"
| "f64_mul _ NaN = NaN"
| "f64_mul x y = signed_inf (fsgn x * fsgn y)"

fun f64_div :: "flt \<Rightarrow> flt \<Rightarrow> flt" where
  "f64_div (Fin a) (Fin b) = (if b = 0 then signed_inf (fsgn (Fin a)) else Fin (a / b))"
| "f64_div NaN _ = NaN"
| "f64_div _ NaN = NaN"
| "f64_div (Fin a) _ = Fin 0"
| "f64_div x (Fin b) = signed_inf (fsgn x * (if b < 0 then - 1 else 1))"
| "f64_div _ _ = NaN"

text \<open>IEEE comparison \<open>a < b\<close>: false as soon as one side is NaN.\<close>

fun f64_less :: "flt \<Rightarrow> flt \<Rightarrow> bool" where
  "f64_less (Fin a) (Fin b) = (a < b)"
| "f64_less NaN _ = False"
| "f64_less _ NaN = False"
| "f64_less PInf _ = False"
| "f64_less (Fin a) PInf = True"
| "f64_less NInf PInf = True"
| "f64_less NInf (Fin b) = True"
| "f64_less _ _ = False"

text \<open>
  Arithmetic on numbers as numpy does it: two \<open>int64\<close> values are added, subtracted and
  multiplied as integers, wrapping around; any other pair is converted to \<open>float64\<close>.
  The division \<open>/\<close> is always the float division, and a comparison of two integers is
  exact.
\<close>

fun fadd :: "flt \<Rightarrow> flt \<Rightarrow> flt" where
  "fadd (I64 a) (I64 b) = I64 (wrap64 (a + b))"
| "fadd x y = f64_add (to_float x) (to_float y)"

fun fsub :: "flt \<Rightarrow> flt \<Rightarrow> flt" where
  "fsub (I64 a) (I64 b) = I64 (wrap64 (a - b))"
| "fsub x y = f64_add (to_float x) (f64_neg (to_float y))"

fun fmul :: "flt \<Rightarrow> flt \<Rightarrow> flt" where
  "fmul (I64 a) (I64 b) = I64 (wrap64 (a * b))"
| "fmul x y = f64_mul (to_float x) (to_float y)"

definition fdiv :: "flt \<Rightarrow> flt \<Rightarrow> flt" where
  "fdiv x y = f64_div (to_float x) (to_float y)"

fun flt_less :: "flt \<Rightarrow> flt \<Rightarrow> bool" where
  "flt_less (I64 a) (I64 b) = (a < b)"
| "flt_less x y = f64_less (to_float x) (to_float y)"

definition flt_le :: "flt \<Rightarrow> flt \<Rightarrow> bool" where
  "flt_le a b = (\<not> isnan a \<and> \<not> isnan b \<and> \<not> flt_less b a)"

text \<open>
  A Python value as it can be passed for a keyword argument or stored as a property:
  \<open>None\<close>, a number, a string, or a container of numbers (list, tuple, array).
\<close>

datatype pyval = PNone | PNum flt | PStr string | PVec "flt list"

datatype error = TypeError | IndexError | KeyError | ValueError | NameError

text \<open>Sequencing of computations that may raise.\<close>

definition sum_bind :: "'e + 'a \<Rightarrow> ('a \<Rightarrow> 'e + 'b) \<Rightarrow> 'e + 'b" where
  "sum_bind m f = (case m of Inl e \<Rightarrow> Inl e | Inr x \<Rightarrow> f x)"

lemma sum_bind_Inl [simp]: "sum_bind (Inl e) f = Inl e"
  by (simp add: sum_bind_def)

lemma sum_bind_Inr [simp]: "sum_bind (Inr x) f = f x"
  by (simp add: sum_bind_def)

lemma sum_bind_eq_Inr: "sum_bind m f = Inr y \<longleftrightarrow> (\<exists>x. m = Inr x \<and> f x = Inr y)"
  by (cases m) simp_all

text \<open>Indexing a sequence of length \<open>n\<close> with a Python integer: negative indices count from
  the end, anything outside \<open>-n \<le> i < n\<close> raises IndexError.\<close>

definition py_index :: "'a list \<Rightarrow> int \<Rightarrow> error + 'a" where
  "py_index xs i =
     (if 0 \<le> i \<and> i < int (length xs) then Inr (xs ! nat i)
      else if i < 0 \<and> - int (length xs) \<le> i then Inr (xs ! nat (int (length xs) + i))
      else Inl IndexError)"

text \<open>\<open>len(val)\<close>: defined for strings and containers, a TypeError otherwise.\<close>

fun py_len :: "pyval \<Rightarrow> error + nat" where
  "py_len (PVec v) = Inr (length v)"
| "py_len (PStr s) = Inr (length s)"
| "py_len _ = Inl TypeError"

text \<open>\<open>str(i)\<close> for a non-negative integer: its decimal digits.\<close>

definition digit_char :: "nat \<Rightarrow> char" where
  "digit_char d = char_of (48 + d)"

fun str :: "nat \<Rightarrow> string" where
  "str n = (if n < 10 then [digit_char n] else str (n div 10) @ [digit_char (n mod 10)])"

declare str.simps [simp del]

section \<open>Cast\<close>

text \<open>
  The state of a \<open>Cast\<close> object.  \<open>data\<close> and \<open>properties\<close> are Python dictionaries:
  association lists in insertion order, read with \<open>map_of\<close> and written with
  \<open>AList.update\<close> (an existing key keeps its place, a new key goes to the end).
  \<open>cast_fields\<close> is \<open>_fields\<close> and \<open>len\<close> is \<open>_len\<close>.  The subclasses (CTDCast, LADCP, XBTCast)
  add no state of their own.
\<close>

record cast =
  properties :: "(string \<times> pyval) list"
  primarykey :: string
  data :: "(string \<times> flt list) list"
  cast_fields :: "string list"
  len :: nat

text \<open>The three functions of the \<open>gsw\<close> module (the equation of state of seawater) that the
  code calls; the module is not among the sources, so they are parameters.\<close>

record gsw =
  gsw_sa_from_sp :: "flt list \<Rightarrow> flt list \<Rightarrow> flt list \<Rightarrow> flt list \<Rightarrow> flt list"
  gsw_ct_from_t :: "flt list \<Rightarrow> flt list \<Rightarrow> flt list \<Rightarrow> flt list"
  gsw_rho :: "flt list \<Rightarrow> flt list \<Rightarrow> flt list \<Rightarrow> flt list"


text \<open>The part of the \<open>karta\<close> library the code calls: the \<open>Point\<close> constructor (applied to
  the coordinates of a cast, with the fixed coordinate system \<open>LONLAT\<close>) and the
  great-circle \<open>distance\<close> between two points.  The library is not among the sources.\<close>

record 'pt karta =
  karta_Point :: "pyval \<Rightarrow> error + 'pt"
  karta_distance :: "'pt \<Rightarrow> 'pt \<Rightarrow> flt"

text \<open>The \<open>properties\<close> argument of the constructor: absent, a dictionary, or anything else.\<close>

datatype propsarg = NoProps | DictProps "(string \<times> pyval) list" | OtherProps

text \<open>\<open>isinstance(val, Container) and not isinstance(val, str) and len(val) == n\<close>\<close>

fun is_vector_of_len :: "pyval \<Rightarrow> nat \<Rightarrow> bool" where
  "is_vector_of_len (PVec v) n = (length v = n)"
| "is_vector_of_len _ n = False"

fun the_vec :: "pyval \<Rightarrow> flt list" where
  "the_vec (PVec v) = v"
| "the_vec _ = []"

text \<open>The loop of \<open>__init__\<close> over the keyword arguments.\<close>

fun init_items :: "nat \<Rightarrow> (string \<times> pyval) list \<Rightarrow> cast \<Rightarrow> cast" where
  "init_items n [] c = c"
| "init_items n ((kw, val) # items) c =
     init_items n items
       (if is_vector_of_len val n
        then c\<lparr>data := AList.update kw (np_asarray (the_vec val)) (data c),
               cast_fields := cast_fields c @ [kw]\<rparr>
        else c\<lparr>properties := AList.update kw val (properties c)\<rparr>)"

definition Cast_init ::
  "flt list \<Rightarrow> pyval \<Rightarrow> propsarg \<Rightarrow> string \<Rightarrow> (string \<times> pyval) list \<Rightarrow> error + cast" where
  "Cast_init p coords props pk kwargs =
     (case props of
        OtherProps \<Rightarrow> Inl TypeError
      | _ \<Rightarrow>
        Inr (init_items (length p) kwargs
          \<lparr>properties = AList.update ''coordinates'' coords
                          (case props of DictProps d \<Rightarrow> d | _ \<Rightarrow> []),
           primarykey = pk,
           data = [(pk, np_asarray p)],
           cast_fields = [pk],
           len = length p\<rparr>))"

text \<open>\<open>CTDCast.__init__(p, sal, temp, coords, properties, **kwargs)\<close> passes \<open>sal\<close> and \<open>temp\<close>
  on as the first keyword arguments; \<open>primarykey\<close> reaches the base class through
  \<open>kwargs\<close> and defaults to \<open>"pres"\<close>.\<close>

definition CTDCast_init ::
  "flt list \<Rightarrow> pyval \<Rightarrow> pyval \<Rightarrow> pyval \<Rightarrow> propsarg \<Rightarrow> string \<Rightarrow> (string \<times> pyval) list
     \<Rightarrow> error + cast" where
  "CTDCast_init p sal temp coords props pk kwargs =
     Cast_init p coords props pk ((''sal'', sal) # (''temp'', temp) # kwargs)"

datatype key = KInt int | KStr string

datatype item = Row "(string \<times> flt) list" | Column "flt list" | Property pyval

text \<open>The generator of \<open>__getitem__\<close> for an integer key: one pair per name in \<open>_fields\<close>.
  (Every value of \<open>data\<close> is a vector here, so the \<open>hasattr(..., "__iter__")\<close> filter
  keeps every field.)\<close>

fun row_at :: "(string \<times> flt list) list \<Rightarrow> int \<Rightarrow> string list \<Rightarrow> error + (string \<times> flt) list" where
  "row_at d i [] = Inr []"
| "row_at d i (a # as) =
     (case map_of d a of
        None \<Rightarrow> Inl KeyError
      | Some v \<Rightarrow>
        (case py_index v i of
           Inl e \<Rightarrow> Inl e
         | Inr x \<Rightarrow>
           (case row_at d i as of
              Inl e \<Rightarrow> Inl e
            | Inr r \<Rightarrow> Inr ((a, x) # r))))"

fun getitem :: "cast \<Rightarrow> key \<Rightarrow> error + item" where
  "getitem c (KInt i) =
     (if i < int (len c)
      then (case row_at (data c) i (cast_fields c) of Inl e \<Rightarrow> Inl e | Inr r \<Rightarrow> Inr (Row r))
      else Inl IndexError)"
| "getitem c (KStr k) =
     (case map_of (data c) k of
        Some v \<Rightarrow> Inr (Column v)
      | None \<Rightarrow>
        (case map_of (properties c) k of
           Some x \<Rightarrow> Inr (Property x)
         | None \<Rightarrow> Inl KeyError))"

text \<open>\<open>len(self[self.primarykey])\<close>\<close>

definition primary_len :: "cast \<Rightarrow> error + nat" where
  "primary_len c =
     (case getitem c (KStr (primarykey c)) of
        Inl e \<Rightarrow> Inl e
      | Inr (Column v) \<Rightarrow> Inr (length v)
      | Inr (Property x) \<Rightarrow> py_len x
      | Inr (Row r) \<Rightarrow> Inr (length r))"

text \<open>\<open>__setitem__\<close>.  The conjunction short-circuits: the primary vector is only looked up
  when the value is a container that is not a string.\<close>

fun setitem :: "cast \<Rightarrow> key \<Rightarrow> pyval \<Rightarrow> error + cast" where
  "setitem c (KStr k) (PVec v) =
     (case primary_len c of
        Inl e \<Rightarrow> Inl e
      | Inr n \<Rightarrow>
        if length v = n
        then Inr (c\<lparr>data := AList.update k v (data c),
                    cast_fields := (if k \<in> set (cast_fields c) then cast_fields c else cast_fields c @ [k])\<rparr>)
        else Inr (c\<lparr>properties := AList.update k (PVec v) (properties c)\<rparr>))"
| "setitem c (KStr k) val = Inr (c\<lparr>properties := AList.update k val (properties c)\<rparr>)"
| "setitem c (KInt i) val = Inl KeyError"

text \<open>The names tried by \<open>_addkeydata\<close>: \<open>key + "_" + str(i)\<close>.\<close>

definition suffixed :: "string \<Rightarrow> nat \<Rightarrow> string" where
  "suffixed k i = k @ ''_'' @ str i"

lemma digit_char_inj: "a < 10 \<Longrightarrow> b < 10 \<Longrightarrow> digit_char a = digit_char b \<Longrightarrow> a = b"
  by (simp add: digit_char_def char_of_eq_iff take_bit_nat_eq_self)

lemma str_nonempty: "str n \<noteq> []"
  by (subst str.simps) simp

lemma str_inj: "str n = str m \<Longrightarrow> n = m"
proof (induction n arbitrary: m rule: str.induct)
  case (1 n)
  show ?case
  proof (cases "n < 10")
    case small_n: True
    show ?thesis
    proof (cases "m < 10")
      case True
      with small_n "1.prems" show ?thesis
        by (simp add: str.simps [of n] str.simps [of m] digit_char_inj)
    next
      case False
      with small_n "1.prems" show ?thesis
        using str_nonempty [of "m div 10"]
        by (simp add: str.simps [of n] str.simps [of m])
    qed
  next
    case big_n: False
    show ?thesis
    proof (cases "m < 10")
      case True
      with big_n "1.prems" show ?thesis
        using str_nonempty [of "n div 10"]
        by (simp add: str.simps [of n] str.simps [of m])
    next
      case False
      with big_n "1.prems" have eq: "str (n div 10) = str (m div 10)"
        and d: "digit_char (n mod 10) = digit_char (m mod 10)"
        by (simp_all add: str.simps [of n] str.simps [of m])
      from "1.IH" [OF big_n eq] have "n div 10 = m div 10" .
      moreover from d have "n mod 10 = m mod 10"
        by (rule digit_char_inj [rotated 2]) simp_all
      ultimately show ?thesis
        by (metis div_mult_mod_eq)
    qed
  qed
qed

lemma suffixed_inj: "suffixed k i = suffixed k j \<Longrightarrow> i = j"
  by (simp add: suffixed_def str_inj)

lemma inj_suffixed: "inj (suffixed k)"
  by (rule injI) (rule suffixed_inj)

text \<open>The suffix indices from \<open>i\<close> on whose name is taken: finitely many, since the
  dictionary is finite and distinct indices give distinct names.\<close>

definition taken_from :: "(string \<times> 'a) list \<Rightarrow> string \<Rightarrow> nat \<Rightarrow> nat set" where
  "taken_from d k i = {j. i \<le> j \<and> suffixed k j \<in> set (map fst d)}"

lemma finite_taken_from: "finite (taken_from d k i)"
proof -
  have "finite (suffixed k -` set (map fst d))"
    by (rule finite_vimageI [OF _ inj_suffixed]) simp
  moreover have "taken_from d k i \<subseteq> suffixed k -` set (map fst d)"
    by (auto simp: taken_from_def)
  ultimately show ?thesis
    by (rule rev_finite_subset)
qed

lemma taken_from_step:
  "taken_from d k i =
     (if suffixed k i \<in> set (map fst d) then insert i (taken_from d k (Suc i))
      else taken_from d k (Suc i))"
proof -
  have "{j. i \<le> j \<and> P j} =
      (if P i then insert i {j. Suc i \<le> j \<and> P j} else {j. Suc i \<le> j \<and> P j})"
    for P :: "nat \<Rightarrow> bool"
    by (auto simp: Suc_le_eq le_less)
  then show ?thesis
    unfolding taken_from_def .
qed

lemma card_taken_from:
  "card (taken_from d k i) =
     card (taken_from d k (Suc i)) + (if suffixed k i \<in> set (map fst d) then 1 else 0)"
proof -
  have "i \<notin> taken_from d k (Suc i)"
    by (simp add: taken_from_def)
  then show ?thesis
    by (subst taken_from_step) (simp add: finite_taken_from)
qed

text \<open>The \<open>while key_ in self.data\<close> loop of \<open>_addkeydata\<close>.\<close>

function unused_key :: "(string \<times> 'a) list \<Rightarrow> string \<Rightarrow> nat \<Rightarrow> string \<Rightarrow> string" where
  "unused_key d k i k' =
     (if k' \<in> set (map fst d) then unused_key d k (Suc i) (suffixed k i) else k')"
  by pat_completeness auto
termination
proof (relation "measure (\<lambda>(d, k, i, k').
         card (taken_from d k i) + (if k' \<in> set (map fst d) then 1 else 0))")
  show "wf (measure (\<lambda>(d, k, i, k').
         card (taken_from d k i) + (if k' \<in> set (map fst d) then 1 else 0)))"
    by simp
next
  fix d :: "(string \<times> 'a) list" and k k' :: string and i :: nat
  assume "k' \<in> set (map fst d)"
  then show "((d, k, Suc i, suffixed k i), (d, k, i, k'))
      \<in> measure (\<lambda>(d, k, i, k').
            card (taken_from d k i) + (if k' \<in> set (map fst d) then 1 else 0))"
    by (simp add: card_taken_from [of d k i])
qed

declare unused_key.simps [simp del]

text \<open>\<open>_addkeydata(key, data, overwrite)\<close>: the updated cast and the key finally used.\<close>

definition addkeydata :: "cast \<Rightarrow> string \<Rightarrow> flt list \<Rightarrow> bool \<Rightarrow> cast \<times> string" where
  "addkeydata c k v overwrite =
     (let k' = (if \<not> overwrite then unused_key (data c) k 2 k else k)
      in (c\<lparr>cast_fields := (if k' \<notin> set (cast_fields c) then cast_fields c @ [k']
                              else cast_fields c),
            data := AList.update k' v (data c)\<rparr>, k'))"

text \<open>\<open>extend(n, padvalue)\<close>.  \<open>np.empty(n)\<close> returns uninitialised \<open>float64\<close> memory: its cells
  are the parameter \<open>uninit\<close>, and the appended array is \<open>padvalue * np.empty(n)\<close>.  Stacked
  on a \<open>float64\<close> array, every vector becomes \<open>float64\<close>.\<close>

definition extend :: "(nat \<Rightarrow> flt) \<Rightarrow> cast \<Rightarrow> int \<Rightarrow> flt \<Rightarrow> error + cast" where
  "extend uninit c n padvalue =
     (if n = 0 then Inl ValueError
      else if n < 0 then Inl ValueError
      else
        (let empty_array = map (\<lambda>i. fmul padvalue (to_float (uninit i))) [0..<nat n]
         in Inr (c\<lparr>data := map (\<lambda>(k, arr). (k, map to_float (arr @ empty_array))) (data c),
                    len := len c + nat n\<rparr>)))"

section \<open>numpy helpers\<close>

text \<open>\<open>np.diff\<close>: the differences of consecutive cells of the array made of the argument.\<close>

fun differences :: "flt list \<Rightarrow> flt list" where
  "differences (x # y # xs) = fsub y x # differences (y # xs)"
| "differences _ = []"

definition np_diff :: "flt list \<Rightarrow> flt list" where
  "np_diff xs = differences (np_asarray xs)"

text \<open>\<open>np.cumsum\<close> of a vector, with the running total as accumulator.\<close>

fun cumsum_from :: "flt \<Rightarrow> flt list \<Rightarrow> flt list" where
  "cumsum_from acc [] = []"
| "cumsum_from acc (x # xs) = fadd acc x # cumsum_from (fadd acc x) xs"

definition np_cumsum :: "flt list \<Rightarrow> flt list" where
  "np_cumsum xs = (case xs of [] \<Rightarrow> [] | x # rest \<Rightarrow> x # cumsum_from x rest)"

text \<open>An elementwise binary operation on two vectors under numpy's broadcasting: equal
  lengths pair up, a vector of length one is stretched, anything else is a ValueError.\<close>

definition broadcast2 :: "(flt \<Rightarrow> flt \<Rightarrow> flt) \<Rightarrow> flt list \<Rightarrow> flt list \<Rightarrow> error + flt list" where
  "broadcast2 f xs ys =
     (if length xs = length ys then Inr (map2 f xs ys)
      else if length xs = 1 then Inr (map (f (hd xs)) ys)
      else if length ys = 1 then Inr (map (\<lambda>x. f x (hd ys)) xs)
      else Inl ValueError)"

text \<open>
  \<open>np.interp(v, xp, fp, left, right)\<close>.  numpy refuses an empty \<open>xp\<close> and an \<open>fp\<close> whose
  length differs from \<open>xp\<close>'s; otherwise the result has one value per query point, computed
  on the arguments as \<open>float64\<close> arrays.  The
  interpolated value at one query point is the parameter \<open>pt\<close> (numpy's piecewise-linear
  rule), which takes the \<open>left\<close> and \<open>right\<close> fill values.
\<close>

type_synonym interp_point = "flt option \<Rightarrow> flt option \<Rightarrow> flt list \<Rightarrow> flt list \<Rightarrow> flt \<Rightarrow> flt"

definition np_interp ::
  "interp_point \<Rightarrow> flt list \<Rightarrow> flt list \<Rightarrow> flt list \<Rightarrow> flt option \<Rightarrow> flt option
     \<Rightarrow> error + flt list" where
  "np_interp pt v xp fp left right =
     (if xp = [] then Inl ValueError
      else if length fp \<noteq> length xp then Inl ValueError
      else Inr (map (\<lambda>q. pt left right (map to_float xp) (map to_float fp) (to_float q)) v))"

section \<open>Cast: interpolation and regridding\<close>

text \<open>The test \<open>np.all(np.diff(x) > 0.0)\<close> of \<open>interpolate\<close>.\<close>

definition diffs_positive :: "flt list \<Rightarrow> bool" where
  "diffs_positive xs = list_all (\<lambda>d. flt_less (Fin 0) d) (np_diff xs)"

text \<open>\<open>interpolate(y, x, v, force)\<close>.  \<open>util.force_monotonic\<close> is not among the sources and
  is the parameter \<open>force_monotonic\<close>.\<close>

definition interpolate ::
  "interp_point \<Rightarrow> (flt list \<Rightarrow> flt list) \<Rightarrow> cast \<Rightarrow> string \<Rightarrow> string \<Rightarrow> flt list \<Rightarrow> bool
     \<Rightarrow> error + flt list" where
  "interpolate pt force_monotonic c y x v force =
     (case map_of (data c) y of
        None \<Rightarrow> Inl KeyError
      | Some ys \<Rightarrow>
        (case map_of (data c) x of
           None \<Rightarrow> Inl KeyError
         | Some xs \<Rightarrow>
           if diffs_positive xs
           then np_interp pt v xs ys None None
           else if force then np_interp pt v (force_monotonic xs) ys None None
           else Inl ValueError))"

text \<open>A value read with \<open>self[key]\<close> and handed to numpy as an array.\<close>

fun as_array :: "item \<Rightarrow> error + flt list" where
  "as_array (Column v) = Inr v"
| "as_array (Property (PVec v)) = Inr v"
| "as_array (Property PNone) = Inl TypeError"
| "as_array _ = Inl ValueError"

definition field_array :: "cast \<Rightarrow> string \<Rightarrow> error + flt list" where
  "field_array c k = (case getitem c (KStr k) of Inl e \<Rightarrow> Inl e | Inr it \<Rightarrow> as_array it)"

text \<open>The loop of \<open>regrid\<close> over the keys of \<open>self.data\<close>; \<open>ret\<close> is the deep copy being
  filled.  (\<open>key is not self.primarykey\<close> compares the key object of the dictionary with
  the attribute; both are the same string object, so it is modelled as inequality.)\<close>

fun regrid_loop :: "interp_point \<Rightarrow> cast \<Rightarrow> flt list \<Rightarrow> string list \<Rightarrow> cast \<Rightarrow> error + cast" where
  "regrid_loop pt self levels [] ret = Inr ret"
| "regrid_loop pt self levels (k # ks) ret =
     (if k \<noteq> primarykey self
      then
        (case field_array self (primarykey self) of
           Inl e \<Rightarrow> Inl e
         | Inr xp \<Rightarrow>
           (case field_array self k of
              Inl e \<Rightarrow> Inl e
            | Inr fp \<Rightarrow>
              (case np_interp pt levels xp fp (Some NaN) (Some NaN) of
                 Inl e \<Rightarrow> Inl e
               | Inr r \<Rightarrow>
                 regrid_loop pt self levels ks (ret\<lparr>data := AList.update k r (data ret)\<rparr>))))
      else regrid_loop pt self levels ks ret)"

definition regrid :: "interp_point \<Rightarrow> cast \<Rightarrow> flt list \<Rightarrow> error + cast" where
  "regrid pt c levels =
     (case regrid_loop pt c levels (map fst (data c)) (c\<lparr>len := length levels\<rparr>) of
        Inl e \<Rightarrow> Inl e
      | Inr ret \<Rightarrow> Inr (ret\<lparr>data := AList.update (primarykey c) levels (data ret)\<rparr>))"

section \<open>CTDCast: density and depth\<close>

text \<open>Global physical constant \<open>G = 9.8\<close>.\<close>

definition G :: real where
  "G = 98 / 10"

text \<open>A value read with \<open>self[key]\<close> and then subscripted or iterated as a vector.\<close>

fun as_vector :: "item \<Rightarrow> error + flt list" where
  "as_vector (Column v) = Inr v"
| "as_vector (Property (PVec v)) = Inr v"
| "as_vector _ = Inl TypeError"

definition field_vector :: "cast \<Rightarrow> string \<Rightarrow> error + flt list" where
  "field_vector c k = sum_bind (getitem c (KStr k)) as_vector"

text \<open>The property \<open>coords\<close>: \<open>self.properties["coordinates"]\<close>.\<close>

definition coords :: "cast \<Rightarrow> error + pyval" where
  "coords c =
     (case map_of (properties c) ''coordinates'' of None \<Rightarrow> Inl KeyError | Some x \<Rightarrow> Inr x)"

text \<open>\<open>coords[i]\<close>\<close>

fun coord_at :: "pyval \<Rightarrow> int \<Rightarrow> error + flt" where
  "coord_at (PVec v) i = py_index v i"
| "coord_at _ i = Inl TypeError"

text \<open>\<open>[self.coords[i] for _ in self["sal"]]\<close>: the coordinates are only read when the
  salinity vector has a cell.\<close>

definition coord_list :: "cast \<Rightarrow> flt list \<Rightarrow> int \<Rightarrow> error + flt list" where
  "coord_list c sal i =
     (if sal = [] then Inr []
      else sum_bind (coords c) (\<lambda>xy. sum_bind (coord_at xy i) (\<lambda>x. Inr (replicate (length sal) x))))"

definition add_density :: "gsw \<Rightarrow> cast \<Rightarrow> error + cast \<times> string" where
  "add_density g c =
     sum_bind (field_vector c ''sal'') (\<lambda>sal.
     sum_bind (field_vector c ''pres'') (\<lambda>pres.
     sum_bind (coord_list c sal 0) (\<lambda>lons.
     sum_bind (coord_list c sal 1) (\<lambda>lats.
     sum_bind (field_vector c ''temp'') (\<lambda>temp.
       (let SA = gsw_sa_from_sp g sal pres lons lats;
            CT = gsw_ct_from_t g SA temp pres;
            rho = gsw_rho g SA CT pres
        in Inr (addkeydata c ''rho'' rho False)))))))"

text \<open>The loop of \<open>add_depth\<close> that counts the leading NaNs: \<open>r = rho[nnans]\<close> is read at
  each round and raises IndexError past the end.\<close>

function leading_nans :: "flt list \<Rightarrow> nat \<Rightarrow> error + nat" where
  "leading_nans rho nnans =
     (if length rho \<le> nnans then Inl IndexError
      else if isnan (rho ! nnans) then leading_nans rho (Suc nnans)
      else Inr nnans)"
  by pat_completeness auto
termination
  by (relation "measure (\<lambda>(rho, nnans). length rho - nnans)") auto

declare leading_nans.simps [simp del]

text \<open>\<open>rho[:nnans] = rho[nnans+1]\<close>: the right-hand side is read first (IndexError past the
  end), then written over the first \<open>nnans\<close> cells.\<close>

definition backfill :: "flt list \<Rightarrow> error + flt list" where
  "backfill rho =
     sum_bind (leading_nans rho 0) (\<lambda>nnans.
     sum_bind (py_index rho (int nnans + 1)) (\<lambda>r.
       Inr (replicate nnans r @ drop nnans rho)))"

text \<open>The integration: \<open>dp = hstack([pres[0], diff(pres)])\<close>, \<open>dz = dp / (rho * G) * 1e4\<close>,
  \<open>depth = cumsum(dz)\<close>.\<close>

definition integrate_depth :: "flt list \<Rightarrow> flt list \<Rightarrow> error + flt list" where
  "integrate_depth pres rho =
     sum_bind (py_index pres 0) (\<lambda>p0.
     sum_bind (broadcast2 fdiv (np_asarray (p0 # np_diff pres)) (map (\<lambda>r. fmul r (Fin G)) rho)) (\<lambda>q.
       Inr (np_cumsum (map (\<lambda>x. fmul x (Fin 10000)) q))))"

text \<open>
  \<open>add_depth(rhokey)\<close>.  \<open>rho = self[rhokey]\<close> is the array stored in the cast, so the
  back-fill writes into the cast's own density vector: the cast that is returned carries
  the back-filled vector under \<open>rhokey\<close>.  When \<open>rhokey\<close> names a property instead of a
  data field, the value is a plain Python sequence or scalar, and the slice assignment
  of a scalar raises TypeError once its right-hand side has been read.
\<close>

definition add_depth :: "gsw \<Rightarrow> cast \<Rightarrow> string option \<Rightarrow> error + cast \<times> string" where
  "add_depth g c rhokey =
     sum_bind (case rhokey of None \<Rightarrow> add_density g c | Some k \<Rightarrow> Inr (c, k)) (\<lambda>(c1, rk).
       (case map_of (data c1) rk of
          Some rho \<Rightarrow>
            sum_bind (backfill rho) (\<lambda>rho'.
              (let c2 = c1\<lparr>data := AList.update rk rho' (data c1)\<rparr>
               in sum_bind (field_vector c2 ''pres'') (\<lambda>pres.
                  sum_bind (integrate_depth pres rho') (\<lambda>depth.
                    Inr (addkeydata c2 ''depth'' depth False)))))
        | None \<Rightarrow>
            (case map_of (properties c1) rk of
               None \<Rightarrow> Inl KeyError
             | Some (PVec v) \<Rightarrow> sum_bind (backfill v) (\<lambda>_. Inl TypeError)
             | Some _ \<Rightarrow> Inl TypeError)))"

section \<open>CastCollection\<close>








text \<open>The loop of \<open>projdist\<close>: \<open>a\<close> is the previous point and \<open>cumulative\<close> the list so far.\<close>

fun projdist_loop :: "'pt karta \<Rightarrow> 'pt \<Rightarrow> flt list \<Rightarrow> cast list \<Rightarrow> error + flt list" where
  "projdist_loop K a cumulative [] = Inr cumulative"
| "projdist_loop K a cumulative (c # rest) =
     sum_bind (coords c) (\<lambda>xy.
     sum_bind (karta_Point K xy) (\<lambda>b.
       projdist_loop K b (cumulative @ [fadd (last cumulative) (karta_distance K a b)]) rest))"

definition projdist :: "'pt karta \<Rightarrow> cast list \<Rightarrow> error + flt list" where
  "projdist K casts =
     (case casts of
        [] \<Rightarrow> Inl IndexError
      | c # rest \<Rightarrow>
        sum_bind (coords c) (\<lambda>xy.
        sum_bind (karta_Point K xy) (\<lambda>a. projdist_loop K a [Fin 0] rest)))"

section \<open>The invariants of a cast\<close>

text \<open>Every vector of \<open>data\<close> has the length recorded in \<open>_len\<close>.\<close>

definition lengths_ok :: "cast \<Rightarrow> bool" where
  "lengths_ok c = list_all (\<lambda>(k, v). length v = len c) (data c)"

text \<open>What the dictionaries and the field list of a constructed cast always satisfy: the
  keys of \<open>data\<close> are distinct (it is a dictionary), the primary key is one of them, and
  every name of \<open>_fields\<close> is a key of \<open>data\<close>.\<close>

definition cast_wf :: "cast \<Rightarrow> bool" where
  "cast_wf c =
     (distinct (map fst (data c)) \<and>
      primarykey c \<in> set (map fst (data c)) \<and>
      list_all (\<lambda>a. a \<in> set (map fst (data c))) (cast_fields c))"

text \<open>Every name of \<open>_fields\<close> is a key of \<open>data\<close> whose vector has \<open>len(cast)\<close> cells: what the
  length invariant says of the fields of a cast.\<close>

definition fields_ok :: "cast \<Rightarrow> bool" where
  "fields_ok c =
     list_all (\<lambda>a. case map_of (data c) a of None \<Rightarrow> False | Some v \<Rightarrow> length v = len c)
       (cast_fields c)"

section \<open>Notions used in the statements\<close>

text \<open>A vector is strictly increasing when each cell is less than the next.\<close>

fun strictly_increasing :: "flt list \<Rightarrow> bool" where
  "strictly_increasing (x # y # xs) = (flt_less x y \<and> strictly_increasing (y # xs))"
| "strictly_increasing _ = True"

text \<open>No difference of two consecutive cells of an \<open>int64\<close> vector overflows.\<close>

fun diffs_fit :: "flt list \<Rightarrow> bool" where
  "diffs_fit (I64 a # I64 b # xs) =
     (- (2 ^ 63) \<le> b - a \<and> b - a < 2 ^ 63 \<and> diffs_fit (I64 b # xs))"
| "diffs_fit (x # xs) = diffs_fit xs"
| "diffs_fit [] = True"

text \<open>The point \<open>Point(cast.coords, crs=LONLAT)\<close> of a cast.\<close>

definition cast_point :: "'pt karta \<Rightarrow> cast \<Rightarrow> error + 'pt" where
  "cast_point K c = sum_bind (coords c) (karta_Point K)"

text \<open>The cumulative distances along a list of points, starting from \<open>acc\<close> at the point
  \<open>a\<close>: what the loop of \<open>projdist\<close> computes.\<close>

fun cumdist :: "'pt karta \<Rightarrow> flt \<Rightarrow> 'pt \<Rightarrow> 'pt list \<Rightarrow> flt list" where
  "cumdist K acc a [] = [acc]"
| "cumdist K acc a (b # ps) = acc # cumdist K (fadd acc (karta_distance K a b)) b ps"

section \<open>Example data\<close>

text \<open>A CTD cast with three observations, used to exercise the theorems.\<close>

definition cast0 :: cast where
  "cast0 =
     \<lparr>properties = [(''coordinates'', PVec [Fin 0, Fin 0])],
      primarykey = ''pres'',
      data = [(''pres'', [Fin 0, Fin 10, Fin 20]),
              (''sal'', [Fin 35, Fin 35, Fin 35]),
              (''temp'', [Fin 10, Fin 10, Fin 10])],
      cast_fields = [''pres'', ''sal'', ''temp''],
      len = 3\<rparr>"

text \<open>The cast \<open>cast0\<close> after \<open>_addkeydata("x", [1.0])\<close>, which checks no length.\<close>

definition cast_uneven :: cast where
  "cast_uneven =
     \<lparr>properties = [(''coordinates'', PVec [Fin 0, Fin 0])],
      primarykey = ''pres'',
      data = [(''pres'', [Fin 0, Fin 10, Fin 20]),
              (''sal'', [Fin 35, Fin 35, Fin 35]),
              (''temp'', [Fin 10, Fin 10, Fin 10]),
              (''x'', [Fin 1])],
      cast_fields = [''pres'', ''sal'', ''temp'', ''x''],
      len = 3\<rparr>"

text \<open>Two CTD casts whose density field starts with one NaN: followed by two values, and
  followed by a single value.\<close>

definition cast_rho3 :: cast where
  "cast_rho3 =
     \<lparr>properties = [(''coordinates'', PVec [Fin 0, Fin 0])],
      primarykey = ''pres'',
      data = [(''pres'', [Fin 0, Fin 10, Fin 20]),
              (''sal'', [Fin 35, Fin 35, Fin 35]),
              (''temp'', [Fin 10, Fin 10, Fin 10]),
              (''rho'', [NaN, Fin 1025, Fin 1030])],
      cast_fields = [''pres'', ''sal'', ''temp'', ''rho''],
      len = 3\<rparr>"

definition cast_rho2 :: cast where
  "cast_rho2 =
     \<lparr>properties = [(''coordinates'', PVec [Fin 0, Fin 0])],
      primarykey = ''pres'',
      data = [(''pres'', [Fin 0, Fin 10]),
              (''sal'', [Fin 35, Fin 35]),
              (''temp'', [Fin 10, Fin 10]),
              (''rho'', [NaN, Fin 1025])],
      cast_fields = [''pres'', ''sal'', ''temp'', ''rho''],
      len = 2\<rparr>"

text \<open>A cast without observations.\<close>

definition empty_cast :: cast where
  "empty_cast =
     \<lparr>properties = [(''coordinates'', PNone)], primarykey = ''pres'',
      data = [(''pres'', []), (''temp'', [])], cast_fields = [''pres'', ''temp''], len = 0\<rparr>"

text \<open>A cast whose pressure is an \<open>int64\<close> vector with a difference that overflows.\<close>

definition cast_wide :: cast where
  "cast_wide =
     \<lparr>properties = [(''coordinates'', PNone)], primarykey = ''pres'',
      data = [(''pres'', [I64 5000000000000000000, I64 (- 5000000000000000000)]),
              (''temp'', [Fin 1, Fin 2])],
      cast_fields = [''pres'', ''temp''], len = 2\<rparr>"

text \<open>A length-preserving coercion (a running maximum), used to exercise the theorem.\<close>

fun running_max :: "flt \<Rightarrow> flt list \<Rightarrow> flt list" where
  "running_max m [] = []"
| "running_max m (x # xs) = (if flt_less m x then x # running_max x xs else m # running_max m xs)"

definition cummax :: "flt list \<Rightarrow> flt list" where
  "cummax xs = (case xs of [] \<Rightarrow> [] | x # rest \<Rightarrow> x # running_max x rest)"

definition cast_bumpy :: cast where
  "cast_bumpy =
     \<lparr>properties = [(''coordinates'', PVec [Fin 0, Fin 0])], primarykey = ''pres'',
      data = [(''pres'', [Fin 0, Fin 10, Fin 20]), (''sigma'', [Fin 25, Fin 24, Fin 26])],
      cast_fields = [''pres'', ''sigma''], len = 3\<rparr>"

text \<open>A CTD station with three observations at the given longitude and latitude, with a
  bottom depth among its properties.\<close>

definition station :: "real \<Rightarrow> real \<Rightarrow> cast" where
  "station lon lat =
     \<lparr>properties = [(''coordinates'', PVec [Fin lon, Fin lat]), (''depth'', PNum (Fin 100))],
      primarykey = ''pres'',
      data = [(''pres'', [Fin 0, Fin 10, Fin 20]),
              (''sal'', [Fin 35, Fin 35, Fin 35]),
              (''temp'', [Fin 10, Fin 10, Fin 10])],
      cast_fields = [''pres'', ''sal'', ''temp''],
      len = 3\<rparr>"

text \<open>A stand-in for the \<open>karta\<close> library: points are pairs of finite coordinates and the
  distance is a planar one (never negative).\<close>

fun plane_point :: "pyval \<Rightarrow> error + real \<times> real" where
  "plane_point (PVec [Fin x, Fin y]) = Inr (x, y)"
| "plane_point _ = Inl TypeError"

definition plane :: "(real \<times> real) karta" where
  "plane = \<lparr>karta_Point = plane_point,
            karta_distance = (\<lambda>a b. Fin (\<bar>fst a - fst b\<bar> + \<bar>snd a - snd b\<bar>))\<rparr>"


section \<open>Construction and the length invariant\<close>

lemma list_all_update:
  "list_all (\<lambda>(k, v). Q v) d \<Longrightarrow> Q v \<Longrightarrow> list_all (\<lambda>(k, v). Q v) (AList.update k v d)"
  by (induction d) auto

lemma init_items_inv:
  "len c = n \<Longrightarrow> lengths_ok c \<Longrightarrow> cast_wf c \<Longrightarrow>
   len (init_items n items c) = n \<and> lengths_ok (init_items n items c) \<and> cast_wf (init_items n items c)"
proof (induction items arbitrary: c)
  case Nil
  then show ?case by simp
next
  case (Cons item items)
  obtain kw val where item: "item = (kw, val)"
    by (cases item)
  show ?case
  proof (cases "is_vector_of_len val n")
    case True
    then obtain v where v: "val = PVec v" "length v = n"
      by (cases val) simp_all
    let ?c = "c\<lparr>data := AList.update kw (np_asarray v) (data c),
                  cast_fields := cast_fields c @ [kw]\<rparr>"
    have "len ?c = n" using Cons.prems by simp
    moreover have "lengths_ok ?c"
      using Cons.prems v by (simp add: lengths_ok_def list_all_update)
    moreover have "cast_wf ?c"
      using Cons.prems by (auto simp: cast_wf_def distinct_update dom_update list_all_iff)
    ultimately show ?thesis
      using Cons.IH [of ?c] True v item by simp
  next
    case False
    let ?c = "c\<lparr>properties := AList.update kw val (properties c)\<rparr>"
    have "len ?c = n" "lengths_ok ?c" "cast_wf ?c"
      using Cons.prems by (simp_all add: lengths_ok_def cast_wf_def)
    then show ?thesis
      using Cons.IH [of ?c] False item by simp
  qed
qed

lemma Cast_init_inv:
  "Cast_init p xy props pk kwargs = Inr c \<Longrightarrow> len c = length p \<and> lengths_ok c \<and> cast_wf c"
proof -
  assume a: "Cast_init p xy props pk kwargs = Inr c"
  let ?c0 = "\<lparr>properties = AList.update ''coordinates'' xy
                          (case props of DictProps d \<Rightarrow> d | _ \<Rightarrow> []),
           primarykey = pk, data = [(pk, np_asarray p)], cast_fields = [pk], len = length p\<rparr>"
  from a have c: "c = init_items (length p) kwargs ?c0"
    by (auto simp: Cast_init_def split: propsarg.splits)
  have "len ?c0 = length p" "lengths_ok ?c0" "cast_wf ?c0"
    by (simp_all add: lengths_ok_def cast_wf_def)
  from init_items_inv [OF this] c show ?thesis by simp
qed

lemma map_of_key_len:
  "lengths_ok c \<Longrightarrow> map_of (data c) k = Some v \<Longrightarrow> length v = len c"
  by (auto simp: lengths_ok_def list_all_iff dest: map_of_SomeD)

lemma primary_len_wf:
  assumes "cast_wf c" "lengths_ok c"
  shows "primary_len c = Inr (len c)"
proof -
  from assms(1) have "primarykey c \<in> fst ` set (data c)"
    by (simp add: cast_wf_def)
  then obtain v where v: "map_of (data c) (primarykey c) = Some v"
    by (cases "map_of (data c) (primarykey c)") (auto simp: map_of_eq_None_iff)
  with assms(2) have "length v = len c"
    by (rule map_of_key_len)
  with v show ?thesis
    by (simp add: primary_len_def)
qed

lemma setitem_inv:
  assumes "cast_wf c" "lengths_ok c" "setitem c (KStr k) val = Inr c'"
  shows "len c' = len c \<and> lengths_ok c' \<and> cast_wf c'"
proof (cases "is_vector_of_len val (len c)")
  case True
  then obtain v where v: "val = PVec v" "length v = len c"
    by (cases val) simp_all
  with assms(3) primary_len_wf [OF assms(1,2)]
  have c': "c' = c\<lparr>data := AList.update k v (data c),
                    cast_fields := (if k \<in> set (cast_fields c) then cast_fields c
                                    else cast_fields c @ [k])\<rparr>"
    by simp
  have "lengths_ok c'"
    using assms(2) v by (simp add: c' lengths_ok_def list_all_update)
  moreover have "cast_wf c'"
    using assms(1) by (auto simp: c' cast_wf_def distinct_update dom_update list_all_iff)
  ultimately show ?thesis
    by (simp add: c')
next
  case False
  with assms(3) primary_len_wf [OF assms(1,2)]
  have "c' = c\<lparr>properties := AList.update k val (properties c)\<rparr>"
    by (cases val) (auto split: if_splits)
  with assms(1,2) show ?thesis
    by (simp add: lengths_ok_def cast_wf_def)
qed

lemma extend_inv:
  assumes "cast_wf c" "lengths_ok c" "extend uninit c n padvalue = Inr c'"
  shows "len c' = len c + nat n \<and> lengths_ok c' \<and> cast_wf c'"
proof -
  from assms(3) have n: "0 < n"
    and c': "c' = c\<lparr>data := map (\<lambda>(k, arr). (k, map to_float
                        (arr @ map (\<lambda>i. fmul padvalue (to_float (uninit i))) [0..<nat n])))
                              (data c),
                    len := len c + nat n\<rparr>"
    by (auto simp: extend_def Let_def simp del: map_append split: if_splits)
  have keys: "map fst (data c') = map fst (data c)"
    by (simp add: c' case_prod_unfold comp_def)
  have "lengths_ok c'"
    using assms(2) by (auto simp: c' lengths_ok_def list_all_iff)
  moreover have "cast_wf c'"
    using assms(1) unfolding cast_wf_def keys by (simp add: c')
  ultimately show ?thesis
    by (simp add: c')
qed

lemma set_update_distinct:
  "distinct (map fst d) \<Longrightarrow>
   set (AList.update k v d) = insert (k, v) {x \<in> set d. fst x \<noteq> k}"
  by (induction d) (auto simp: rev_image_eqI)

lemma regrid_loop_inv:
  assumes "regrid_loop pt self levels ks ret = Inr r"
    and "distinct (map fst (data ret))"
    and "list_all (\<lambda>(k, v). k \<in> T \<or> k \<in> set ks \<or> k = primarykey self \<or> length v = length levels) (data ret)"
  shows "len r = len ret \<and> cast_fields r = cast_fields ret \<and> primarykey r = primarykey ret \<and>
         distinct (map fst (data r)) \<and> fst ` set (data ret) \<subseteq> fst ` set (data r) \<and>
         list_all (\<lambda>(k, v). k \<in> T \<or> k = primarykey self \<or> length v = length levels) (data r)"
  using assms
proof (induction ks arbitrary: ret)
  case Nil
  then show ?case by (auto simp: list_all_iff)
next
  case (Cons k ks)
  show ?case
  proof (cases "k = primarykey self")
    case True
    with Cons.prems(1) have "regrid_loop pt self levels ks ret = Inr r"
      by simp
    moreover from Cons.prems(3) True
    have "list_all (\<lambda>(k, v). k \<in> T \<or> k \<in> set ks \<or> k = primarykey self \<or> length v = length levels) (data ret)"
      by (auto simp: list_all_iff)
    ultimately show ?thesis
      using Cons.IH [of ret] Cons.prems(2) by simp
  next
    case False
    with Cons.prems(1) obtain xp fp w where
      w: "np_interp pt levels xp fp (Some NaN) (Some NaN) = Inr w"
      and rest: "regrid_loop pt self levels ks (ret\<lparr>data := AList.update k w (data ret)\<rparr>) = Inr r"
      by (auto split: sum.splits)
    from w have lw: "length w = length levels"
      by (auto simp: np_interp_def split: if_splits)
    let ?ret = "ret\<lparr>data := AList.update k w (data ret)\<rparr>"
    have d: "distinct (map fst (data ?ret))"
      using Cons.prems(2) by (simp add: distinct_update)
    have "list_all (\<lambda>(k, v). k \<in> T \<or> k \<in> set ks \<or> k = primarykey self \<or> length v = length levels) (data ?ret)"
      using Cons.prems(3) lw
      by (auto simp: list_all_iff set_update_distinct [OF Cons.prems(2)])
    from Cons.IH [OF rest d this] show ?thesis
      by (auto simp: dom_update)
  qed
qed

lemma regrid_inv:
  assumes "cast_wf c" "regrid pt c levels = Inr c'"
  shows "len c' = length levels \<and> lengths_ok c' \<and> cast_wf c'"
proof -
  from assms(2) obtain r where
    r: "regrid_loop pt c levels (map fst (data c)) (c\<lparr>len := length levels\<rparr>) = Inr r"
    and c': "c' = r\<lparr>data := AList.update (primarykey c) levels (data r)\<rparr>"
    by (auto simp: regrid_def split: sum.splits)
  have d: "distinct (map fst (data (c\<lparr>len := length levels\<rparr>)))"
    using assms(1) by (simp add: cast_wf_def)
  have "list_all (\<lambda>(k, v). k \<in> {} \<or> k \<in> set (map fst (data c)) \<or> k = primarykey c \<or> length v = length levels)
          (data (c\<lparr>len := length levels\<rparr>))"
    by (force simp: list_all_iff)
  from regrid_loop_inv [OF r d this]
  have r_len: "len r = length levels" and r_f: "cast_fields r = cast_fields c"
    and r_pk: "primarykey r = primarykey c" and r_d: "distinct (map fst (data r))"
    and r_keys: "fst ` set (data c) \<subseteq> fst ` set (data r)"
    and r_all: "list_all (\<lambda>(k, v). k = primarykey c \<or> length v = length levels) (data r)"
    by simp_all
  have "lengths_ok c'"
    using r_all r_len
    by (auto simp: c' lengths_ok_def list_all_iff set_update_distinct [OF r_d])
  moreover have "cast_wf c'"
    using assms(1) r_keys r_d
    by (simp add: c' cast_wf_def r_f r_pk distinct_update dom_update list_all_iff) blast
  ultimately show ?thesis
    by (simp add: c' r_len)
qed

lemma init_items_other:
  "kw \<notin> fst ` set items \<Longrightarrow>
   map_of (properties (init_items n items c)) kw = map_of (properties c) kw \<and>
   map_of (data (init_items n items c)) kw = map_of (data c) kw"
proof (induction items arbitrary: c)
  case Nil
  then show ?case by simp
next
  case (Cons item items)
  obtain k val where item: "item = (k, val)"
    by (cases item)
  with Cons.prems have "k \<noteq> kw" "kw \<notin> fst ` set items"
    by auto
  with Cons.IH item show ?case
    by (simp add: update_conv')
qed

lemma init_items_property:
  "distinct (map fst items) \<Longrightarrow> (kw, val) \<in> set items \<Longrightarrow> \<not> is_vector_of_len val n \<Longrightarrow>
   map_of (properties (init_items n items c)) kw = Some val \<and>
   map_of (data (init_items n items c)) kw = map_of (data c) kw"
proof (induction items arbitrary: c)
  case Nil
  then show ?case by simp
next
  case (Cons item items)
  obtain k x where item: "item = (k, x)"
    by (cases item)
  show ?case
  proof (cases "(kw, val) = item")
    case True
    with Cons.prems item have "kw \<notin> fst ` set items" "k = kw" "x = val"
      by auto
    with init_items_other [of kw items n] Cons.prems(3) item show ?thesis
      by (simp add: update_conv')
  next
    case False
    with Cons.prems item have "(kw, val) \<in> set items" "kw \<noteq> k" "distinct (map fst items)"
      by (auto simp: rev_image_eqI)
    with Cons.IH Cons.prems(3) item show ?thesis
      by (simp add: update_conv')
  qed
qed

lemma row_at_negative:
  assumes "\<forall>a \<in> set as. \<exists>v. map_of d a = Some v \<and> length v = n"
    and "- int n \<le> i" "i < 0"
  shows "row_at d i as = Inr (map (\<lambda>a. (a, the (map_of d a) ! nat (int n + i))) as)"
  using assms(1)
proof (induction as)
  case Nil
  then show ?case by simp
next
  case (Cons a as)
  then obtain v where v: "map_of d a = Some v" "length v = n"
    by auto
  with assms(2,3) have "py_index v i = Inr (v ! nat (int n + i))"
    by (simp add: py_index_def)
  with Cons v show ?case
    by simp
qed

lemma row_at_short:
  assumes "i < 0"
    and "list_all (\<lambda>a. map_of d a \<noteq> None) as"
    and "list_ex (\<lambda>a. int (length (the (map_of d a))) < - i) as"
  shows "row_at d i as = Inl IndexError"
  using assms(2,3)
proof (induction as)
  case Nil
  then show ?case by simp
next
  case (Cons a as)
  then obtain v where v: "map_of d a = Some v"
    by auto
  show ?case
  proof (cases "int (length v) < - i")
    case True
    with assms(1) v show ?thesis
      by (simp add: py_index_def)
  next
    case False
    with Cons v have "row_at d i as = Inl IndexError"
      by simp
    with v False assms(1) show ?thesis
      by (simp add: py_index_def)
  qed
qed

lemma unused_key_spec:
  "unused_key d k i k' \<notin> fst ` set d \<and>
   (k' \<notin> fst ` set d \<longrightarrow> unused_key d k i k' = k') \<and>
   (k' \<in> fst ` set d \<longrightarrow>
      (\<exists>j \<ge> i. unused_key d k i k' = suffixed k j \<and>
                 (\<forall>m. i \<le> m \<and> m < j \<longrightarrow> suffixed k m \<in> fst ` set d)))"
proof (induction d k i k' rule: unused_key.induct)
  case (1 d k i k')
  show ?case
  proof (cases "k' \<in> fst ` set d")
    case False
    then show ?thesis
      by (simp add: unused_key.simps [of d k i k'])
  next
    case True
    then have step: "unused_key d k i k' = unused_key d k (Suc i) (suffixed k i)"
      by (simp add: unused_key.simps [of d k i k'])
    from True have IH: "unused_key d k (Suc i) (suffixed k i) \<notin> fst ` set d \<and>
        (suffixed k i \<notin> fst ` set d \<longrightarrow> unused_key d k (Suc i) (suffixed k i) = suffixed k i) \<and>
        (suffixed k i \<in> fst ` set d \<longrightarrow>
          (\<exists>j \<ge> Suc i. unused_key d k (Suc i) (suffixed k i) = suffixed k j \<and>
                 (\<forall>m. Suc i \<le> m \<and> m < j \<longrightarrow> suffixed k m \<in> fst ` set d)))"
      using 1 by simp
    show ?thesis
    proof (cases "suffixed k i \<in> fst ` set d")
      case False
      with IH step True show ?thesis
        by auto
    next
      case in_d: True
      with IH obtain j where j: "Suc i \<le> j" "unused_key d k (Suc i) (suffixed k i) = suffixed k j"
        "\<forall>m. Suc i \<le> m \<and> m < j \<longrightarrow> suffixed k m \<in> fst ` set d"
        by blast
      have "\<forall>m. i \<le> m \<and> m < j \<longrightarrow> suffixed k m \<in> fst ` set d"
      proof (intro allI impI)
        fix m assume "i \<le> m \<and> m < j"
        then have "m = i \<or> (Suc i \<le> m \<and> m < j)" by auto
        with in_d j(3) show "suffixed k m \<in> fst ` set d" by auto
      qed
      with j IH step True show ?thesis
        by (metis Suc_leD)
    qed
  qed
qed

lemma str_2: "str 2 = ''2''"
  by code_simp

lemma str_3: "str 3 = ''3''"
  by code_simp

lemma cast0_ok: "cast_wf cast0 \<and> lengths_ok cast0"
  by (simp add: cast0_def cast_wf_def lengths_ok_def)

text \<open>
  Claim C9, as stated, fails on a cast one of whose fields has another length:
  \<open>_addkeydata("x", [1.0])\<close> on a cast of three observations checks no length and gives a
  cast of length 3 with a field of one cell; then \<open>c[-3]\<close>, with \<open>-len(c) \<le> -3 < 0\<close>, passes
  the bounds check and raises IndexError when it reads \<open>data["x"][-3]\<close>.
\<close>

theorem getitem_negative_index_counterexample:
  "addkeydata cast0 ''x'' [Fin 1] False = (cast_uneven, ''x'') \<and>
   - int (len cast_uneven) \<le> - 3 \<and> (- 3 :: int) < 0 \<and>
   getitem cast_uneven (KInt (- 3)) = Inl IndexError"
  by (simp add: addkeydata_def Let_def unused_key.simps cast0_def cast_uneven_def py_index_def)

text \<open>
  Claim C9, amended.  For an integer \<open>i\<close> with \<open>-len(c) \<le> i < 0\<close>: when every field of the cast
  is a data vector of \<open>len(c)\<close> cells, \<open>c[i]\<close> raises nothing (the bounds check \<open>i < len(c)\<close>
  passes) and returns the (field, value) pairs of the observation at position
  \<open>len(c) + i\<close>, one per name of \<open>_fields\<close>, in order; when every field is a data vector
  and one of them has fewer than \<open>-i\<close> cells, \<open>c[i]\<close> raises IndexError.
\<close>

theorem getitem_negative_index:
  assumes "- int (len c) \<le> i" and "i < 0"
  shows "(fields_ok c \<longrightarrow>
            getitem c (KInt i) =
              Inr (Row (map (\<lambda>a. (a, the (map_of (data c) a) ! nat (int (len c) + i)))
                         (cast_fields c)))) \<and>
         (list_all (\<lambda>a. map_of (data c) a \<noteq> None) (cast_fields c) \<and>
          list_ex (\<lambda>a. int (length (the (map_of (data c) a))) < - i) (cast_fields c) \<longrightarrow>
            getitem c (KInt i) = Inl IndexError)"
proof (intro conjI impI)
  assume "fields_ok c"
  then have "\<forall>a \<in> set (cast_fields c). \<exists>v. map_of (data c) a = Some v \<and> length v = len c"
    by (auto simp: fields_ok_def list_all_iff split: option.splits)
  from row_at_negative [OF this assms] assms(2)
  show "getitem c (KInt i) =
      Inr (Row (map (\<lambda>a. (a, the (map_of (data c) a) ! nat (int (len c) + i))) (cast_fields c)))"
    by simp
next
  assume "list_all (\<lambda>a. map_of (data c) a \<noteq> None) (cast_fields c) \<and>
          list_ex (\<lambda>a. int (length (the (map_of (data c) a))) < - i) (cast_fields c)"
  with row_at_short [OF assms(2), of "data c" "cast_fields c"] assms(2)
  show "getitem c (KInt i) = Inl IndexError"
    by simp
qed

theorem getitem_negative_index_witness:
  "- int (len cast0) \<le> - 1 \<and> (- 1 :: int) < 0 \<and> fields_ok cast0 \<and>
   getitem cast0 (KInt (- 1)) = Inr (Row [(''pres'', Fin 20), (''sal'', Fin 35), (''temp'', Fin 10)]) \<and>
   - int (len cast_uneven) \<le> - 3 \<and> (- 3 :: int) < 0 \<and>
   list_all (\<lambda>a. map_of (data cast_uneven) a \<noteq> None) (cast_fields cast_uneven) \<and>
   list_ex (\<lambda>a. int (length (the (map_of (data cast_uneven) a))) < - (- 3)) (cast_fields cast_uneven) \<and>
   getitem cast_uneven (KInt (- 3)) = Inl IndexError"
proof -
  have ok: "fields_ok cast0"
    by (simp add: fields_ok_def cast0_def)
  have hyp: "- int (len cast_uneven) \<le> - 3"
    "list_all (\<lambda>a. map_of (data cast_uneven) a \<noteq> None) (cast_fields cast_uneven)"
    "list_ex (\<lambda>a. int (length (the (map_of (data cast_uneven) a))) < - (- 3)) (cast_fields cast_uneven)"
    by (simp_all add: cast_uneven_def)
  from getitem_negative_index [of cast0 "- 1"] ok
  have "getitem cast0 (KInt (- 1)) = Inr (Row [(''pres'', Fin 20), (''sal'', Fin 35), (''temp'', Fin 10)])"
    by (simp add: cast0_def)
  moreover from getitem_negative_index [of cast_uneven "- 3"] hyp
  have "getitem cast_uneven (KInt (- 3)) = Inl IndexError"
    by simp
  ultimately show ?thesis
    using ok hyp by (simp add: cast0_def)
qed

text \<open>
  Claim C3.  \<open>extend(n, padvalue)\<close> appends \<open>padvalue * np.empty(n)\<close>, and \<open>np.empty\<close> is
  uninitialised memory: on the cast \<open>cast0\<close>, with one cell of memory that holds \<open>0.0\<close>,
  \<open>extend(1, padvalue=2.0)\<close> succeeds, lengthens every vector by one cell and sets the
  length to 4, but the new cells are \<open>0.0\<close> and not the fill value \<open>2.0\<close>.
\<close>

theorem extend_cells_not_fill:
  "extend (\<lambda>i. Fin 0) cast0 1 (Fin 2) =
     Inr (cast0\<lparr>data := [(''pres'', [Fin 0, Fin 10, Fin 20, Fin 0]),
                         (''sal'', [Fin 35, Fin 35, Fin 35, Fin 0]),
                         (''temp'', [Fin 10, Fin 10, Fin 10, Fin 0])],
                len := 4\<rparr>)"
  by (simp add: extend_def Let_def cast0_def)

text \<open>What \<open>extend\<close> does in general: it fails for \<open>n \<le> 0\<close>, and otherwise each new cell is
  the product of the fill value and an uninitialised cell; the product is NaN whenever the
  fill value is NaN (the default).\<close>

lemma extend_result:
  "extend uninit c n padvalue =
     (if n \<le> 0 then Inl ValueError
      else Inr (c\<lparr>data := map (\<lambda>(k, arr). (k, map to_float
                     (arr @ map (\<lambda>i. fmul padvalue (to_float (uninit i))) [0..<nat n])))
                              (data c),
                 len := len c + nat n\<rparr>))"
  by (simp add: extend_def Let_def del: map_append)

lemma fmul_NaN: "fmul NaN x = NaN"
  by (cases x) simp_all

lemma extend_NaN:
  "0 < n \<Longrightarrow> extend uninit c n NaN =
     Inr (c\<lparr>data := map (\<lambda>(k, arr). (k, map to_float arr @ replicate (nat n) NaN)) (data c),
            len := len c + nat n\<rparr>)"
  by (simp add: extend_def Let_def fmul_NaN map_replicate_const)

text \<open>
  Claim C4.  Adding a field with \<open>overwrite=False\<close> never replaces an existing field: the
  key used, which is returned, is not a key of \<open>data\<close> before the call, every existing field
  keeps its vector, and the new vector is stored under the returned key, which is listed
  in \<open>_fields\<close>.  The returned key is the name itself when it is free, and otherwise the
  first free name among \<open>name_2\<close>, \<open>name_3\<close>, ...  Two successive calls with the same base
  name give two distinct keys, the second one suffixed, and both vectors are kept.
\<close>

theorem addkeydata_no_overwrite:
  assumes "addkeydata c k v False = (c1, k1)" and "addkeydata c1 k w False = (c2, k2)"
  shows "k1 \<notin> fst ` set (data c) \<and>
     (\<forall>a \<in> fst ` set (data c). map_of (data c1) a = map_of (data c) a) \<and>
     map_of (data c1) k1 = Some v \<and> k1 \<in> set (cast_fields c1) \<and>
     (k \<notin> fst ` set (data c) \<longrightarrow> k1 = k) \<and>
     (k \<in> fst ` set (data c) \<longrightarrow>
        (\<exists>j\<ge>2. k1 = suffixed k j \<and> (\<forall>m. 2 \<le> m \<and> m < j \<longrightarrow> suffixed k m \<in> fst ` set (data c)))) \<and>
     k2 \<noteq> k1 \<and> (\<exists>j\<ge>2. k2 = suffixed k j) \<and>
     map_of (data c2) k1 = Some v \<and> map_of (data c2) k2 = Some w"
proof -
  from assms(1) have k1: "k1 = unused_key (data c) k 2 k"
    and c1: "data c1 = AList.update k1 v (data c)"
    and f1: "k1 \<in> set (cast_fields c1)"
    by (auto simp: addkeydata_def Let_def)
  from assms(2) have k2: "k2 = unused_key (data c1) k 2 k"
    and c2: "data c2 = AList.update k2 w (data c1)"
    by (auto simp: addkeydata_def Let_def)
  note s1 = unused_key_spec [of "data c" k 2 k, folded k1]
  note s2 = unused_key_spec [of "data c1" k 2 k, folded k2]
  have in1: "k1 \<in> fst ` set (data c1)"
    by (simp add: c1 dom_update)
  have "k \<in> fst ` set (data c1)"
  proof (cases "k \<in> fst ` set (data c)")
    case True
    then show ?thesis by (simp add: c1 dom_update)
  next
    case False
    with s1 have "k1 = k" by simp
    with in1 show ?thesis by simp
  qed
  with s2 have suff2: "\<exists>j\<ge>2. k2 = suffixed k j"
    by blast
  from s2 in1 have ne: "k2 \<noteq> k1"
    by auto
  have "\<forall>a \<in> fst ` set (data c). map_of (data c1) a = map_of (data c) a"
    using s1 by (auto simp: c1 update_conv')
  moreover have "map_of (data c1) k1 = Some v"
    by (simp add: c1 update_conv')
  moreover have "map_of (data c2) k1 = Some v" "map_of (data c2) k2 = Some w"
    using ne by (simp_all add: c2 c1 update_conv')
  ultimately show ?thesis
    using s1 f1 ne suff2 by blast
qed

theorem addkeydata_no_overwrite_witness:
  "addkeydata cast0 ''sal'' [NaN, NaN, NaN] False =
     (cast0\<lparr>cast_fields := [''pres'', ''sal'', ''temp'', ''sal_2''],
            data := data cast0 @ [(''sal_2'', [NaN, NaN, NaN])]\<rparr>, ''sal_2'') \<and>
   addkeydata (cast0\<lparr>cast_fields := [''pres'', ''sal'', ''temp'', ''sal_2''],
                    data := data cast0 @ [(''sal_2'', [NaN, NaN, NaN])]\<rparr>) ''sal'' [PInf, PInf, PInf] False =
     (cast0\<lparr>cast_fields := [''pres'', ''sal'', ''temp'', ''sal_2'', ''sal_3''],
            data := data cast0 @ [(''sal_2'', [NaN, NaN, NaN]), (''sal_3'', [PInf, PInf, PInf])]\<rparr>,
      ''sal_3'') \<and>
   ''sal'' \<in> fst ` set (data cast0) \<and>
   map_of (data cast0) ''sal'' = Some [Fin 35, Fin 35, Fin 35] \<and>
   ''sal_3'' \<noteq> ''sal_2''"
proof -
  let ?c1 = "cast0\<lparr>cast_fields := [''pres'', ''sal'', ''temp'', ''sal_2''],
                   data := data cast0 @ [(''sal_2'', [NaN, NaN, NaN])]\<rparr>"
  let ?c2 = "cast0\<lparr>cast_fields := [''pres'', ''sal'', ''temp'', ''sal_2'', ''sal_3''],
            data := data cast0 @ [(''sal_2'', [NaN, NaN, NaN]), (''sal_3'', [PInf, PInf, PInf])]\<rparr>"
  have e1: "addkeydata cast0 ''sal'' [NaN, NaN, NaN] False = (?c1, ''sal_2'')"
    by (simp add: addkeydata_def Let_def cast0_def unused_key.simps suffixed_def str_2)
  have e2: "addkeydata ?c1 ''sal'' [PInf, PInf, PInf] False = (?c2, ''sal_3'')"
    by (simp add: addkeydata_def Let_def cast0_def unused_key.simps suffixed_def str_2 str_3)
  from addkeydata_no_overwrite [OF e1 e2] e1 e2 show ?thesis
    by (simp add: cast0_def)
qed

text \<open>
  Claim C5.  The invariant that every vector of \<open>data\<close> has length \<open>len(cast)\<close> holds after
  construction, where a keyword value that is not a container of the primary vector's
  length becomes a property and not a field; and it is preserved by assignment to a
  string key, by \<open>extend\<close> and by \<open>regrid\<close> (which sets the length to that of the levels).
\<close>

theorem length_invariant:
  "(Cast_init p xy props pk kwargs = Inr c0 \<longrightarrow>
      len c0 = length p \<and> lengths_ok c0 \<and> cast_wf c0) \<and>
   (Cast_init p xy props pk kwargs = Inr c0 \<and> distinct (map fst kwargs) \<and>
    (kw, x) \<in> set kwargs \<and> \<not> is_vector_of_len x (length p) \<and> kw \<noteq> pk \<longrightarrow>
      map_of (properties c0) kw = Some x \<and> map_of (data c0) kw = None) \<and>
   (cast_wf c \<and> lengths_ok c \<and> setitem c (KStr k) val = Inr c1 \<longrightarrow>
      len c1 = len c \<and> lengths_ok c1 \<and> cast_wf c1) \<and>
   (cast_wf c \<and> lengths_ok c \<and> extend uninit c n padvalue = Inr c2 \<longrightarrow>
      len c2 = len c + nat n \<and> lengths_ok c2 \<and> cast_wf c2) \<and>
   (cast_wf c \<and> regrid pt c levels = Inr c3 \<longrightarrow>
      len c3 = length levels \<and> lengths_ok c3 \<and> cast_wf c3)"
proof (intro conjI impI)
  assume "Cast_init p xy props pk kwargs = Inr c0"
  from Cast_init_inv [OF this]
  show "len c0 = length p" "lengths_ok c0" "cast_wf c0"
    by simp_all
next
  assume a: "Cast_init p xy props pk kwargs = Inr c0 \<and> distinct (map fst kwargs) \<and>
    (kw, x) \<in> set kwargs \<and> \<not> is_vector_of_len x (length p) \<and> kw \<noteq> pk"
  then have "\<exists>c. c0 = init_items (length p) kwargs c \<and> data c = [(pk, np_asarray p)]"
    by (auto simp: Cast_init_def split: propsarg.splits)
  then obtain c where c: "c0 = init_items (length p) kwargs c" "data c = [(pk, np_asarray p)]"
    by blast
  from a init_items_property [of kwargs kw x "length p" c] c
  show "map_of (properties c0) kw = Some x" "map_of (data c0) kw = None"
    by simp_all
next
  assume "cast_wf c \<and> lengths_ok c \<and> setitem c (KStr k) val = Inr c1"
  then have "len c1 = len c \<and> lengths_ok c1 \<and> cast_wf c1"
    using setitem_inv by blast
  then show "len c1 = len c" "lengths_ok c1" "cast_wf c1"
    by simp_all
next
  assume "cast_wf c \<and> lengths_ok c \<and> extend uninit c n padvalue = Inr c2"
  then have "len c2 = len c + nat n \<and> lengths_ok c2 \<and> cast_wf c2"
    using extend_inv by blast
  then show "len c2 = len c + nat n" "lengths_ok c2" "cast_wf c2"
    by simp_all
next
  assume "cast_wf c \<and> regrid pt c levels = Inr c3"
  then have "len c3 = length levels \<and> lengths_ok c3 \<and> cast_wf c3"
    using regrid_inv by blast
  then show "len c3 = length levels" "lengths_ok c3" "cast_wf c3"
    by simp_all
qed

theorem length_invariant_witness:
  "Cast_init [Fin 0, Fin 10, Fin 20] (PVec [Fin 0, Fin 0]) NoProps ''pres''
      [(''sal'', PVec [Fin 35, Fin 35, Fin 35]), (''temp'', PVec [Fin 10, Fin 10, Fin 10]),
       (''station'', PVec [Fin 7])]
     = Inr (cast0\<lparr>properties := properties cast0 @ [(''station'', PVec [Fin 7])]\<rparr>) \<and>
   lengths_ok (cast0\<lparr>properties := properties cast0 @ [(''station'', PVec [Fin 7])]\<rparr>) \<and>
   map_of (properties (cast0\<lparr>properties := properties cast0 @ [(''station'', PVec [Fin 7])]\<rparr>))
      ''station'' = Some (PVec [Fin 7]) \<and>
   cast_wf cast0 \<and> lengths_ok cast0 \<and>
   setitem cast0 (KStr ''oxy'') (PVec [Fin 1, Fin 2, Fin 3]) =
     Inr (cast0\<lparr>data := data cast0 @ [(''oxy'', [Fin 1, Fin 2, Fin 3])],
                cast_fields := cast_fields cast0 @ [''oxy'']\<rparr>) \<and>
   lengths_ok (cast0\<lparr>data := data cast0 @ [(''oxy'', [Fin 1, Fin 2, Fin 3])],
                cast_fields := cast_fields cast0 @ [''oxy'']\<rparr>) \<and>
   extend (\<lambda>i. Fin 0) cast0 2 NaN =
     Inr (cast0\<lparr>data := [(''pres'', [Fin 0, Fin 10, Fin 20, NaN, NaN]),
                         (''sal'', [Fin 35, Fin 35, Fin 35, NaN, NaN]),
                         (''temp'', [Fin 10, Fin 10, Fin 10, NaN, NaN])],
                len := 5\<rparr>) \<and>
   lengths_ok (cast0\<lparr>data := [(''pres'', [Fin 0, Fin 10, Fin 20, NaN, NaN]),
                         (''sal'', [Fin 35, Fin 35, Fin 35, NaN, NaN]),
                         (''temp'', [Fin 10, Fin 10, Fin 10, NaN, NaN])],
                len := 5\<rparr>) \<and>
   regrid (\<lambda>left right xp fp q. Fin 35) cast0 [Fin 5, Fin 15] =
     Inr (cast0\<lparr>data := [(''pres'', [Fin 5, Fin 15]), (''sal'', [Fin 35, Fin 35]),
                         (''temp'', [Fin 35, Fin 35])],
                len := 2\<rparr>) \<and>
   lengths_ok (cast0\<lparr>data := [(''pres'', [Fin 5, Fin 15]), (''sal'', [Fin 35, Fin 35]),
                         (''temp'', [Fin 35, Fin 35])],
                len := 2\<rparr>)"
proof -
  let ?kwargs = "[(''sal'', PVec [Fin 35, Fin 35, Fin 35]), (''temp'', PVec [Fin 10, Fin 10, Fin 10]),
       (''station'', PVec [Fin 7])]"
  let ?c0 = "cast0\<lparr>properties := properties cast0 @ [(''station'', PVec [Fin 7])]\<rparr>"
  let ?c1 = "cast0\<lparr>data := data cast0 @ [(''oxy'', [Fin 1, Fin 2, Fin 3])],
                cast_fields := cast_fields cast0 @ [''oxy'']\<rparr>"
  let ?c2 = "cast0\<lparr>data := [(''pres'', [Fin 0, Fin 10, Fin 20, NaN, NaN]),
                         (''sal'', [Fin 35, Fin 35, Fin 35, NaN, NaN]),
                         (''temp'', [Fin 10, Fin 10, Fin 10, NaN, NaN])],
                len := 5\<rparr>"
  let ?c3 = "cast0\<lparr>data := [(''pres'', [Fin 5, Fin 15]), (''sal'', [Fin 35, Fin 35]),
                         (''temp'', [Fin 35, Fin 35])],
                len := 2\<rparr>"
  have e0: "Cast_init [Fin 0, Fin 10, Fin 20] (PVec [Fin 0, Fin 0]) NoProps ''pres'' ?kwargs = Inr ?c0"
    by (simp add: Cast_init_def cast0_def np_asarray_def)
  have e1: "setitem cast0 (KStr ''oxy'') (PVec [Fin 1, Fin 2, Fin 3]) = Inr ?c1"
    by (simp add: primary_len_def cast0_def)
  have e2: "extend (\<lambda>i. Fin 0) cast0 2 NaN = Inr ?c2"
    by (simp add: extend_def Let_def cast0_def numeral_2_eq_2)
  have e3: "regrid (\<lambda>left right xp fp q. Fin 35) cast0 [Fin 5, Fin 15] = Inr ?c3"
    by (simp add: regrid_def field_array_def np_interp_def cast0_def)
  from length_invariant [where p = "[Fin 0, Fin 10, Fin 20]" and xy = "PVec [Fin 0, Fin 0]"
      and props = NoProps and pk = "''pres''" and kwargs = ?kwargs and ?c0.0 = ?c0
      and kw = "''station''" and x = "PVec [Fin 7]" and c = cast0 and k = "''oxy''"
      and val = "PVec [Fin 1, Fin 2, Fin 3]" and ?c1.0 = ?c1 and uninit = "\<lambda>i. Fin 0" and n = 2
      and padvalue = NaN and ?c2.0 = ?c2 and pt = "\<lambda>left right xp fp q. Fin 35"
      and levels = "[Fin 5, Fin 15]" and ?c3.0 = ?c3]
    e0 e1 e2 e3 cast0_ok
  show ?thesis
    by simp
qed

section \<open>The back-fill of \<open>add_depth\<close>\<close>

lemma leading_nans_skip:
  "i \<le> k \<Longrightarrow> \<not> isnan x \<Longrightarrow> leading_nans (replicate k NaN @ x # rest) i = Inr k"
proof (induction "k - i" arbitrary: i)
  case 0
  then have "i = k" by simp
  with 0 show ?case
    by (simp add: leading_nans.simps [of _ k] nth_append)
next
  case (Suc d)
  then have lt: "i < k" by simp
  with Suc have "leading_nans (replicate k NaN @ x # rest) (Suc i) = Inr k"
    by simp
  with lt show ?case
    by (simp add: leading_nans.simps [of _ i] nth_append)
qed

lemma backfill_two:
  "backfill (replicate k NaN @ x # y # ys) = Inr (replicate k y @ x # y # ys)" if "\<not> isnan x"
proof -
  have "nat (int k + 1) = Suc k"
    by simp
  then show ?thesis
    using that by (simp add: backfill_def leading_nans_skip py_index_def nth_append)
qed

lemma backfill_one:
  "\<not> isnan x \<Longrightarrow> backfill (replicate k NaN @ [x]) = Inl IndexError"
  by (simp add: backfill_def leading_nans_skip py_index_def)

lemma backfill_rho3: "backfill [NaN, Fin 1025, Fin 1030] = Inr [Fin 1030, Fin 1025, Fin 1030]"
  using backfill_two [of "Fin 1025" 1 "Fin 1030" "[]"] by simp

lemma backfill_rho2: "backfill [NaN, Fin 1025] = Inl IndexError"
  using backfill_one [of "Fin 1025" 1] by simp

text \<open>
  Claim C1.  On a cast with pressure \<open>[0, 10, 20]\<close> and density \<open>[NaN, 1025, 1030]\<close>,
  \<open>add_depth(rhokey="rho")\<close> returns the key \<open>"depth"\<close> and leaves the density
  \<open>[1030, 1025, 1030]\<close>: the leading NaN is replaced by \<open>rho[nnans+1]\<close>, the value after
  the first valid one, and not by the first valid value \<open>1025\<close>.
\<close>

theorem add_depth_fills_with_second_value:
  "map_sum id (\<lambda>(c, k). (map_of (data c) ''rho'', k)) (add_depth g cast_rho3 (Some ''rho'')) =
     Inr (Some [Fin 1030, Fin 1025, Fin 1030], ''depth'')"
  by (simp add: add_depth_def cast_rho3_def backfill_rho3 field_vector_def integrate_depth_def
      py_index_def broadcast2_def addkeydata_def Let_def unused_key.simps np_diff_def
      np_asarray_def)

text \<open>
  Claim C10.  On a cast with pressure \<open>[0, 10]\<close> and density \<open>[NaN, 1025]\<close> (one leading NaN
  followed by a finite value), \<open>add_depth(rhokey="rho")\<close> raises IndexError when it reads
  \<open>rho[nnans+1]\<close>, before anything is written: the leading NaN stays.
\<close>

theorem add_depth_single_value_raises:
  "add_depth g cast_rho2 (Some ''rho'') = Inl IndexError"
  by (simp add: add_depth_def cast_rho2_def backfill_rho2)

lemma addkeydata_keeps:
  "addkeydata c k v False = (c', k') \<Longrightarrow> map_of (data c) a = Some w \<Longrightarrow> map_of (data c') a = Some w"
proof -
  assume a: "addkeydata c k v False = (c', k')" and w: "map_of (data c) a = Some w"
  from a have k': "k' = unused_key (data c) k 2 k" and d: "data c' = AList.update k' v (data c)"
    by (auto simp: addkeydata_def Let_def)
  from w have "a \<in> fst ` set (data c)"
    by (auto dest: map_of_SomeD simp: rev_image_eqI)
  moreover from unused_key_spec [of "data c" k 2 k] k' have "k' \<notin> fst ` set (data c)"
    by simp
  ultimately have "a \<noteq> k'"
    by blast
  with w show ?thesis
    by (simp add: d update_conv')
qed

text \<open>When at least two values follow the leading NaNs and \<open>add_depth\<close> returns, the
  density vector stored in the cast has been overwritten: its first \<open>k\<close> cells hold the
  second of those values.\<close>

lemma add_depth_mutates_density:
  assumes "map_of (data c) rk = Some (replicate k NaN @ x # y # ys)" and "\<not> isnan x"
    and "add_depth g c (Some rk) = Inr (c', dk)"
  shows "map_of (data c') rk = Some (replicate k y @ x # y # ys)"
proof -
  let ?rho = "replicate k y @ x # y # ys"
  let ?c2 = "c\<lparr>data := AList.update rk ?rho (data c)\<rparr>"
  from assms obtain depth where "addkeydata ?c2 ''depth'' depth False = (c', dk)"
    by (auto simp: add_depth_def backfill_two Let_def sum_bind_eq_Inr)
  moreover have "map_of (data ?c2) rk = Some ?rho"
    by (simp add: update_conv')
  ultimately show ?thesis
    by (rule addkeydata_keeps)
qed

section \<open>Interpolation\<close>

lemma wrap64_id: "- (2 ^ 63) \<le> i \<Longrightarrow> i < 2 ^ 63 \<Longrightarrow> wrap64 i = i"
  by (simp add: wrap64_def)

lemma flt_less_to_float: "flt_less (to_float x) (to_float y) = flt_less x y"
  by (cases x; cases y) simp_all

lemma strictly_increasing_to_float: "strictly_increasing (map to_float xs) = strictly_increasing xs"
  by (induction xs rule: strictly_increasing.induct) (simp_all add: flt_less_to_float)

lemma diff_positive_float:
  "\<not> is_int x \<Longrightarrow> \<not> is_int y \<Longrightarrow> f64_less (Fin 0) (to_float (fsub y x)) = flt_less x y"
  by (cases x; cases y) simp_all

lemma differences_positive_float:
  "list_all (\<lambda>x. \<not> is_int x) xs \<Longrightarrow>
   list_all (\<lambda>d. flt_less (Fin 0) d) (differences xs) = strictly_increasing xs"
  by (induction xs rule: differences.induct) (simp_all add: diff_positive_float)

lemma differences_positive_int:
  "list_all is_int xs \<Longrightarrow> diffs_fit xs \<Longrightarrow>
   list_all (\<lambda>d. flt_less (Fin 0) d) (differences xs) = strictly_increasing xs"
proof (induction xs rule: differences.induct)
  case (1 x y xs)
  then obtain a b where ab: "x = I64 a" "y = I64 b"
    by (cases x; cases y) simp_all
  with "1.prems" have fit: "- (2 ^ 63) \<le> b - a" "b - a < 2 ^ 63" and rest: "diffs_fit (y # xs)"
    by simp_all
  from "1.IH" "1.prems" rest
  have "list_all (\<lambda>d. flt_less (Fin 0) d) (differences (y # xs)) = strictly_increasing (y # xs)"
    by simp
  with ab wrap64_id [OF fit] show ?case
    by simp
qed simp_all

lemma not_int_to_float: "list_all (\<lambda>x. \<not> is_int x) (map to_float xs)"
proof (induction xs)
  case (Cons x xs)
  then show ?case by (cases x) simp_all
qed simp

lemma diffs_positive_monotone:
  assumes "\<not> list_all is_int xs \<or> diffs_fit xs"
  shows "diffs_positive xs = strictly_increasing xs"
proof (cases "list_all is_int xs")
  case True
  with assms differences_positive_int [of xs] show ?thesis
    by (simp add: diffs_positive_def np_diff_def np_asarray_def)
next
  case False
  with differences_positive_float [OF not_int_to_float, of xs] show ?thesis
    by (simp add: diffs_positive_def np_diff_def np_asarray_def strictly_increasing_to_float)
qed

text \<open>
  Claim C6, as stated, fails in three ways.  On a cast without observations, built by
  \<open>Cast([], temp=[])\<close>, both fields exist and \<open>interpolate("temp", "pres", [5.0], force=True)\<close>
  raises ValueError, because \<open>np.interp\<close> refuses an empty vector of sample points.  On a
  cast of three observations to which \<open>_addkeydata\<close> has added a field \<open>"x"\<close> of one cell,
  \<open>interpolate("pres", "x", [5.0], force=True)\<close> raises ValueError, because \<open>np.interp\<close>
  refuses vectors of different lengths.  On a cast whose pressure is the \<open>int64\<close> vector
  \<open>[5000000000000000000, -5000000000000000000]\<close>, which is not increasing,
  \<open>interpolate("temp", "pres", [5.0], force=False)\<close> returns: the difference wraps around to
  a positive number.
\<close>

theorem interpolate_force_empty_counterexample:
  "Cast_init [] PNone NoProps ''pres'' [(''temp'', PVec [])] = Inr empty_cast \<and>
   interpolate (\<lambda>left right xp fp q. q) (\<lambda>xs. xs) empty_cast ''temp'' ''pres'' [Fin 5] True
     = Inl ValueError \<and>
   addkeydata cast0 ''x'' [Fin 1] False = (cast_uneven, ''x'') \<and>
   interpolate (\<lambda>left right xp fp q. q) (\<lambda>xs. xs) cast_uneven ''pres'' ''x'' [Fin 5] True
     = Inl ValueError \<and>
   Cast_init [I64 5000000000000000000, I64 (- 5000000000000000000)] PNone NoProps ''pres''
       [(''temp'', PVec [Fin 1, Fin 2])] = Inr cast_wide \<and>
   \<not> strictly_increasing [I64 5000000000000000000, I64 (- 5000000000000000000)] \<and>
   interpolate (\<lambda>left right xp fp q. q) (\<lambda>xs. xs) cast_wide ''temp'' ''pres'' [Fin 5] False
     = Inr [Fin 5]"
  by (simp add: Cast_init_def empty_cast_def cast_wide_def cast_uneven_def cast0_def
      interpolate_def np_interp_def diffs_positive_def np_diff_def np_asarray_def wrap64_def
      addkeydata_def Let_def unused_key.simps)

text \<open>
  Claim C6, amended.  \<open>interpolate(y, x, v, force)\<close> fails with KeyError when \<open>y\<close> or \<open>x\<close> is
  not a data field.  Otherwise it fails with ValueError when \<open>x\<close> has no cell, and when \<open>y\<close>
  and \<open>x\<close> differ in length (the coercion keeping the length of \<open>x\<close>).  For fields of one
  length with at least one cell: when every difference \<open>np.diff(x)\<close> is positive it returns
  as many values as the query vector has, whatever \<open>force\<close> is; when some difference is
  not positive it fails with ValueError if \<open>force\<close> is false, and if \<open>force\<close> is true it
  returns as many values as the query vector has (the coercion \<open>util.force_monotonic\<close>
  keeping the length of \<open>x\<close>).  The differences of a \<open>float64\<close> field, and those of an
  \<open>int64\<close> field when none of them overflows, are all positive exactly when \<open>x\<close> is strictly
  increasing; the differences of an \<open>int64\<close> field wrap around.
\<close>

theorem interpolate_contract:
  "(map_of (data c) y = None \<or> map_of (data c) x = None \<longrightarrow>
      interpolate pt fm c y x v force = Inl KeyError) \<and>
   (map_of (data c) y = Some ys \<and> map_of (data c) x = Some xs \<and> xs = [] \<longrightarrow>
      interpolate pt fm c y x v force = Inl ValueError) \<and>
   (map_of (data c) y = Some ys \<and> map_of (data c) x = Some xs \<and>
    length ys \<noteq> length xs \<and> length (fm xs) = length xs \<longrightarrow>
      interpolate pt fm c y x v force = Inl ValueError) \<and>
   (map_of (data c) y = Some ys \<and> map_of (data c) x = Some xs \<and>
    \<not> diffs_positive xs \<and> \<not> force \<longrightarrow>
      interpolate pt fm c y x v force = Inl ValueError) \<and>
   (map_of (data c) y = Some ys \<and> map_of (data c) x = Some xs \<and>
    xs \<noteq> [] \<and> length ys = length xs \<and> diffs_positive xs \<longrightarrow>
      (\<exists>r. interpolate pt fm c y x v force = Inr r \<and> length r = length v)) \<and>
   (map_of (data c) y = Some ys \<and> map_of (data c) x = Some xs \<and>
    xs \<noteq> [] \<and> length ys = length xs \<and> length (fm xs) = length xs \<longrightarrow>
      (\<exists>r. interpolate pt fm c y x v True = Inr r \<and> length r = length v)) \<and>
   (\<not> list_all is_int xs \<or> diffs_fit xs \<longrightarrow> diffs_positive xs = strictly_increasing xs)"
proof (intro conjI impI)
  assume "map_of (data c) y = None \<or> map_of (data c) x = None"
  then show "interpolate pt fm c y x v force = Inl KeyError"
    by (auto simp: interpolate_def split: option.splits)
next
  assume "map_of (data c) y = Some ys \<and> map_of (data c) x = Some xs \<and> xs = []"
  then show "interpolate pt fm c y x v force = Inl ValueError"
    by (simp add: interpolate_def np_interp_def diffs_positive_def np_diff_def np_asarray_def)
next
  assume "map_of (data c) y = Some ys \<and> map_of (data c) x = Some xs \<and>
    length ys \<noteq> length xs \<and> length (fm xs) = length xs"
  then show "interpolate pt fm c y x v force = Inl ValueError"
    by (auto simp: interpolate_def np_interp_def)
next
  assume "map_of (data c) y = Some ys \<and> map_of (data c) x = Some xs \<and>
    \<not> diffs_positive xs \<and> \<not> force"
  then show "interpolate pt fm c y x v force = Inl ValueError"
    by (simp add: interpolate_def)
next
  assume "map_of (data c) y = Some ys \<and> map_of (data c) x = Some xs \<and>
    xs \<noteq> [] \<and> length ys = length xs \<and> diffs_positive xs"
  then show "\<exists>r. interpolate pt fm c y x v force = Inr r \<and> length r = length v"
    by (simp add: interpolate_def np_interp_def)
next
  assume a: "map_of (data c) y = Some ys \<and> map_of (data c) x = Some xs \<and>
    xs \<noteq> [] \<and> length ys = length xs \<and> length (fm xs) = length xs"
  then have "fm xs \<noteq> []" "length ys = length (fm xs)"
    by auto
  with a show "\<exists>r. interpolate pt fm c y x v True = Inr r \<and> length r = length v"
    by (simp add: interpolate_def np_interp_def)
next
  assume "\<not> list_all is_int xs \<or> diffs_fit xs"
  then show "diffs_positive xs = strictly_increasing xs"
    by (rule diffs_positive_monotone)
qed

theorem interpolate_contract_witness:
  "map_of (data cast_bumpy) ''depth'' = None \<and>
   interpolate (\<lambda>left right xp fp q. q) cummax cast_bumpy ''depth'' ''sigma'' [Fin 25] False = Inl KeyError \<and>
   map_of (data empty_cast) ''temp'' = Some [] \<and> map_of (data empty_cast) ''pres'' = Some [] \<and>
   interpolate (\<lambda>left right xp fp q. q) cummax empty_cast ''temp'' ''pres'' [Fin 25] True = Inl ValueError \<and>
   map_of (data cast_uneven) ''pres'' = Some [Fin 0, Fin 10, Fin 20] \<and>
   map_of (data cast_uneven) ''x'' = Some [Fin 1] \<and>
   length [Fin 0, Fin 10, Fin 20 :: flt] \<noteq> length [Fin 1 :: flt] \<and>
   length (cummax [Fin 1]) = length [Fin 1 :: flt] \<and>
   interpolate (\<lambda>left right xp fp q. q) cummax cast_uneven ''pres'' ''x'' [Fin 25] True = Inl ValueError \<and>
   map_of (data cast_bumpy) ''pres'' = Some [Fin 0, Fin 10, Fin 20] \<and>
   map_of (data cast_bumpy) ''sigma'' = Some [Fin 25, Fin 24, Fin 26] \<and>
   \<not> list_all is_int [Fin 25, Fin 24, Fin 26] \<and>
   \<not> strictly_increasing [Fin 25, Fin 24, Fin 26] \<and>
   \<not> diffs_positive [Fin 25, Fin 24, Fin 26] \<and>
   interpolate (\<lambda>left right xp fp q. q) cummax cast_bumpy ''pres'' ''sigma'' [Fin 25] False = Inl ValueError \<and>
   length (cummax [Fin 25, Fin 24, Fin 26]) = length [Fin 25, Fin 24, Fin 26 :: flt] \<and>
   interpolate (\<lambda>left right xp fp q. q) cummax cast_bumpy ''pres'' ''sigma'' [Fin 25] True = Inr [Fin 25] \<and>
   diffs_positive [Fin 0, Fin 10, Fin 20] \<and>
   interpolate (\<lambda>left right xp fp q. q) cummax cast_bumpy ''sigma'' ''pres'' [Fin 5] False = Inr [Fin 5]"
proof -
  let ?pt = "\<lambda>(left :: flt option) (right :: flt option) (xp :: flt list) (fp :: flt list) (q :: flt). q"
  note A = interpolate_contract [where c = cast_bumpy and y = "''depth''" and x = "''sigma''"
      and pt = ?pt and fm = cummax and v = "[Fin 25]" and force = False]
  note B = interpolate_contract [where c = cast_bumpy and y = "''pres''" and x = "''sigma''"
      and ys = "[Fin 0, Fin 10, Fin 20]" and xs = "[Fin 25, Fin 24, Fin 26]"
      and pt = ?pt and fm = cummax and v = "[Fin 25]" and force = False]
  note C = interpolate_contract [where c = empty_cast and y = "''temp''" and x = "''pres''"
      and ys = "[]" and xs = "[]" and pt = ?pt and fm = cummax and v = "[Fin 25]" and force = True]
  note D = interpolate_contract [where c = cast_uneven and y = "''pres''" and x = "''x''"
      and ys = "[Fin 0, Fin 10, Fin 20]" and xs = "[Fin 1]" and pt = ?pt and fm = cummax
      and v = "[Fin 25]" and force = True]
  note E = interpolate_contract [where c = cast_bumpy and y = "''sigma''" and x = "''pres''"
      and ys = "[Fin 25, Fin 24, Fin 26]" and xs = "[Fin 0, Fin 10, Fin 20]"
      and pt = ?pt and fm = cummax and v = "[Fin 5]" and force = False]
  have e: "interpolate ?pt cummax cast_bumpy ''pres'' ''sigma'' [Fin 25] True = Inr [Fin 25]"
    "interpolate ?pt cummax cast_bumpy ''sigma'' ''pres'' [Fin 5] False = Inr [Fin 5]"
    by (simp_all add: interpolate_def cast_bumpy_def np_interp_def diffs_positive_def np_diff_def
        np_asarray_def cummax_def)
  have dp: "\<not> diffs_positive [Fin 25, Fin 24, Fin 26]" "diffs_positive [Fin 0, Fin 10, Fin 20]"
    by (simp_all add: diffs_positive_def np_diff_def np_asarray_def)
  from A B C D E e dp show ?thesis
    by (simp add: cast_bumpy_def empty_cast_def cast_uneven_def cummax_def)
qed

section \<open>Along-track distance\<close>

lemma cumdist_length: "length (cumdist K acc a ps) = Suc (length ps)"
  by (induction ps arbitrary: acc a) simp_all

lemma cumdist_hd: "cumdist K acc a ps ! 0 = acc"
  by (cases ps) simp_all

lemma cumdist_step:
  "i < length ps \<Longrightarrow>
   cumdist K acc a ps ! Suc i =
     fadd (cumdist K acc a ps ! i) (karta_distance K ((a # ps) ! i) ((a # ps) ! Suc i))"
proof (induction ps arbitrary: acc a i)
  case Nil
  then show ?case by simp
next
  case (Cons b ps)
  show ?case
  proof (cases i)
    case 0
    then show ?thesis by (simp add: cumdist_hd)
  next
    case (Suc j)
    with Cons.prems have "j < length ps" by simp
    from Cons.IH [OF this] Suc show ?thesis by simp
  qed
qed

lemma cumdist_finite:
  assumes "\<forall>a b. \<exists>r\<ge>0. karta_distance K a b = Fin r"
  shows "\<forall>x \<in> set (cumdist K (Fin s) a ps). \<exists>r. x = Fin r"
proof (induction ps arbitrary: s a)
  case Nil
  then show ?case by simp
next
  case (Cons b ps)
  from assms obtain r where "karta_distance K a b = Fin r"
    by blast
  with Cons [of "s + r" b] show ?case
    by simp
qed

lemma projdist_loop_cumdist:
  "projdist_loop K a cum rest = Inr d \<Longrightarrow> cum \<noteq> [] \<Longrightarrow>
   \<exists>ps. map (cast_point K) rest = map Inr ps \<and> d = butlast cum @ cumdist K (last cum) a ps"
proof (induction rest arbitrary: a cum)
  case Nil
  then show ?case by simp
next
  case (Cons c rest)
  from Cons.prems(1) obtain b where b: "cast_point K c = Inr b"
    and loop: "projdist_loop K b (cum @ [fadd (last cum) (karta_distance K a b)]) rest = Inr d"
    by (auto simp: cast_point_def sum_bind_eq_Inr)
  from Cons.IH [OF loop] obtain ps where ps: "map (cast_point K) rest = map Inr ps"
    and d: "d = cum @ cumdist K (fadd (last cum) (karta_distance K a b)) b ps"
    by auto
  from Cons.prems(2) have "cum = butlast cum @ [last cum]"
    by simp
  then have "d = butlast cum @ cumdist K (last cum) a (b # ps)"
    using d by (metis append_Cons append_Nil append_assoc cumdist.simps(2))
  with b ps show ?case
    by (intro exI [of _ "b # ps"]) simp
qed

lemma projdist_loop_total:
  "map (cast_point K) rest = map Inr ps \<Longrightarrow> \<exists>d. projdist_loop K a cum rest = Inr d"
proof (induction rest arbitrary: a cum ps)
  case Nil
  then show ?case by simp
next
  case (Cons c rest)
  then obtain b ps' where b: "cast_point K c = Inr b"
    and rest: "map (cast_point K) rest = map Inr ps'"
    by (cases ps) auto
  from b obtain xy where xy: "coords c = Inr xy" "karta_Point K xy = Inr b"
    by (auto simp: cast_point_def sum_bind_eq_Inr)
  from Cons.IH [OF rest, of b "cum @ [fadd (last cum) (karta_distance K a b)]"] xy
  show ?case
    by simp
qed

text \<open>
  Claim C8.  For a non-empty collection, \<open>projdist\<close> returns whenever \<open>karta\<close> accepts the
  coordinates of every cast; the vector it returns has one entry per cast, its first
  entry is 0, each later entry is the previous one plus the distance between the points
  of the two consecutive casts, and, distances being finite and never negative, the
  vector is non-decreasing.
\<close>

theorem projdist_cumulative:
  assumes "casts \<noteq> []"
  shows "(map (cast_point K) casts = map Inr ps \<longrightarrow> (\<exists>d. projdist K casts = Inr d)) \<and>
   (projdist K casts = Inr d \<longrightarrow>
      length d = length casts \<and> d ! 0 = Fin 0 \<and>
      (\<exists>ps. map (cast_point K) casts = map Inr ps \<and>
         (\<forall>i. Suc i < length casts \<longrightarrow>
            d ! Suc i = fadd (d ! i) (karta_distance K (ps ! i) (ps ! Suc i)))) \<and>
      ((\<forall>a b. \<exists>r\<ge>0. karta_distance K a b = Fin r) \<longrightarrow>
         (\<forall>i. Suc i < length d \<longrightarrow> flt_le (d ! i) (d ! Suc i))))"
proof (intro conjI impI)
  assume "map (cast_point K) casts = map Inr ps"
  with assms obtain c rest a ps' where casts: "casts = c # rest"
    and a: "cast_point K c = Inr a" and rest: "map (cast_point K) rest = map Inr ps'"
    by (cases casts; cases ps) auto
  from a obtain xy where xy: "coords c = Inr xy" "karta_Point K xy = Inr a"
    by (auto simp: cast_point_def sum_bind_eq_Inr)
  from projdist_loop_total [OF rest, of a "[Fin 0]"] xy
  show "\<exists>d. projdist K casts = Inr d"
    by (simp add: projdist_def casts)
next
  assume r: "projdist K casts = Inr d"
  from assms obtain c rest where casts: "casts = c # rest"
    by (cases casts) auto
  with r obtain a where a: "cast_point K c = Inr a"
    and loop: "projdist_loop K a [Fin 0] rest = Inr d"
    by (auto simp: projdist_def cast_point_def sum_bind_eq_Inr)
  from projdist_loop_cumdist [OF loop] obtain ps where
    ps: "map (cast_point K) rest = map Inr ps" and d: "d = cumdist K (Fin 0) a ps"
    by auto
  from ps have len: "length ps = length rest"
    by (metis length_map)
  show "length d = length casts"
    by (simp add: d casts cumdist_length len)
  show "d ! 0 = Fin 0"
    by (simp add: d cumdist_hd)
  have step: "\<forall>i. Suc i < length casts \<longrightarrow>
      d ! Suc i = fadd (d ! i) (karta_distance K ((a # ps) ! i) ((a # ps) ! Suc i))"
    using cumdist_step [of _ ps K "Fin 0" a] by (simp add: d casts len)
  from a ps have "map (cast_point K) casts = map Inr (a # ps)"
    by (simp add: casts)
  with step show "\<exists>ps. map (cast_point K) casts = map Inr ps \<and>
      (\<forall>i. Suc i < length casts \<longrightarrow>
         d ! Suc i = fadd (d ! i) (karta_distance K (ps ! i) (ps ! Suc i)))"
    by blast
  assume nonneg: "\<forall>a b. \<exists>r\<ge>0. karta_distance K a b = Fin r"
  show "\<forall>i. Suc i < length d \<longrightarrow> flt_le (d ! i) (d ! Suc i)"
  proof (intro allI impI)
    fix i assume i: "Suc i < length d"
    then have "i < length ps"
      by (simp add: d cumdist_length)
    from cumdist_step [OF this, of K "Fin 0" a]
    have s: "d ! Suc i = fadd (d ! i) (karta_distance K ((a # ps) ! i) ((a # ps) ! Suc i))"
      by (simp add: d)
    from i cumdist_finite [OF nonneg, of 0 a ps] obtain x where x: "d ! i = Fin x"
      unfolding d by (metis Suc_lessD nth_mem)
    from nonneg obtain r where "r \<ge> 0" "karta_distance K ((a # ps) ! i) ((a # ps) ! Suc i) = Fin r"
      by blast
    with s x show "flt_le (d ! i) (d ! Suc i)"
      by (simp add: flt_le_def)
  qed
qed

theorem projdist_cumulative_witness:
  "[station 0 45, station 1 45, station 2 45] \<noteq> [] \<and>
   map (cast_point plane) [station 0 45, station 1 45, station 2 45] = map Inr [(0, 45), (1, 45), (2, 45)] \<and>
   projdist plane [station 0 45, station 1 45, station 2 45] = Inr [Fin 0, Fin 1, Fin 2] \<and>
   length [Fin 0, Fin 1, Fin 2 :: flt] = length [station 0 45, station 1 45, station 2 45] \<and>
   (\<exists>r\<ge>0. karta_distance plane (0, 45) (1, 45) = Fin r) \<and>
   flt_le (Fin 0) (Fin 1) \<and> flt_le (Fin 1) (Fin 2)"
proof -
  let ?casts = "[station 0 45, station 1 45, station 2 45]"
  have ne: "?casts \<noteq> []"
    by simp
  have pts: "map (cast_point plane) ?casts = map Inr [(0, 45), (1, 45), (2, 45)]"
    by (simp add: cast_point_def coords_def station_def plane_def)
  have nonneg: "\<forall>a b. \<exists>r\<ge>0. karta_distance plane a b = Fin r"
    by (simp add: plane_def)
  have run: "projdist plane ?casts = Inr [Fin 0, Fin 1, Fin 2]"
    by (simp add: projdist_def coords_def station_def plane_def)
  from projdist_cumulative [OF ne, of plane "[(0, 45), (1, 45), (2, 45)]" "[Fin 0, Fin 1, Fin 2]"]
    pts run nonneg
  have "\<forall>i. Suc i < length [Fin 0, Fin 1, Fin 2 :: flt] \<longrightarrow>
      flt_le ([Fin 0, Fin 1, Fin 2] ! i) ([Fin 0, Fin 1, Fin 2] ! Suc i)"
    by blast
  from this [rule_format, of 0] this [rule_format, of 1] pts run nonneg show ?thesis
    by simp
qed







section \<open>Indexing a collection\<close>






end
